theory Spec2Isabelle
  imports Complex_Main "HOL-Library.Sublist"
begin

section \<open>Strings and Python values\<close>

text \<open>
  A Python \<open>str\<close> is a sequence of Unicode code points, so a character is its code point
  and a string is a list of them.  The few ASCII characters the handlers test for get names.
\<close>

type_synonym uchar = nat
type_synonym ustring = "uchar list"

definition SPACE :: uchar where "SPACE = 32"
definition DOT :: uchar where "DOT = 46"
definition NEWLINE :: uchar where "NEWLINE = 10"
definition LBRACE :: uchar where "LBRACE = 123"
definition RBRACE :: uchar where "RBRACE = 125"

text \<open>
  The values the handlers receive from the components: \<open>None\<close>, a string or a boolean,
  with Python's truth test.
\<close>

datatype pyval = PNone | PStr ustring | PBool bool

fun truthy :: "pyval \<Rightarrow> bool" where
  "truthy PNone = False"
| "truthy (PStr s) = (s \<noteq> [])"
| "truthy (PBool b) = b"

text \<open>The literal \<open>"Regular"\<close>.\<close>

definition Regular :: ustring where
  "Regular = [82, 101, 103, 117, 108, 97, 114]"

text \<open>The Python exceptions that the functions below can raise.\<close>

datatype error = IndexError | KeyError | UnboundLocalError | ValueError | OverflowError

section \<open>Number normalisation\<close>

text \<open>
  What the text functions take from Python and its libraries: the character classes
  \<open>\d\<close> (a Unicode decimal digit) and \<open>\w\<close> of the \<open>re\<close> module, the value of a decimal
  digit as \<open>int()\<close> reads it, the words \<open>num2words(n, lang='ar')\<close> gives for a number it
  accepts (\<open>cardinal\<close>), and \<open>str.lower\<close>.  The converter of \<open>num2words\<close> is taken as a
  function of the number alone.
\<close>

record pylib =
  re_digit :: "uchar \<Rightarrow> bool"
  re_word :: "uchar \<Rightarrow> bool"
  digit_value :: "uchar \<Rightarrow> int"
  cardinal :: "int \<Rightarrow> ustring"
  str_lower :: "ustring \<Rightarrow> ustring"

text \<open>The class \<open>[A-Za-z]\<close>.\<close>

definition latin_letter :: "uchar \<Rightarrow> bool" where
  "latin_letter c \<longleftrightarrow> (65 \<le> c \<and> c \<le> 90) \<or> (97 \<le> c \<and> c \<le> 122)"

text \<open>
  \<open>re.sub(r'([A-Za-z])(\d)', r'\1 \2', text)\<close> and \<open>re.sub(r'(\d)([A-Za-z])', r'\1 \2', text)\<close>:
  the scan goes left to right; a match takes two characters and the scan continues after
  them, any other character is copied.
\<close>

fun sub_letter_digit :: "pylib \<Rightarrow> ustring \<Rightarrow> ustring" where
  "sub_letter_digit L (a # b # s) =
     (if latin_letter a \<and> re_digit L b then a # SPACE # b # sub_letter_digit L s
      else a # sub_letter_digit L (b # s))"
| "sub_letter_digit L s = s"

fun sub_digit_letter :: "pylib \<Rightarrow> ustring \<Rightarrow> ustring" where
  "sub_digit_letter L (a # b # s) =
     (if re_digit L a \<and> latin_letter b then a # SPACE # b # sub_digit_letter L s
      else a # sub_digit_letter L (b # s))"
| "sub_digit_letter L s = s"

text \<open>
  \<open>int(number)\<close> on a string of decimal digits: CPython refuses a string of more than
  4300 digits with \<open>ValueError\<close>, and otherwise reads the digits in base ten.
\<close>

definition max_str_digits :: nat where
  "max_str_digits = 4300"

definition py_int :: "pylib \<Rightarrow> ustring \<Rightarrow> error + int" where
  "py_int L number =
     (if max_str_digits < length number then Inl ValueError
      else Inr (foldl (\<lambda>n c. 10 * n + digit_value L c) 0 number))"

text \<open>
  \<open>num2words(number, lang='ar')\<close>: the Arabic converter raises \<open>OverflowError\<close> for a
  number that is not below its \<open>MAXVAL\<close>, which is \<open>10 ** 51\<close>.
\<close>

definition MAXVAL :: int where
  "MAXVAL = 10 ^ 51"

definition num2words :: "pylib \<Rightarrow> int \<Rightarrow> error + ustring" where
  "num2words L number =
     (if MAXVAL \<le> number then Inl OverflowError else Inr (cardinal L number))"

text \<open>
  \<open>replace_number\<close>: \<open>num2words(int(number), lang='ar')\<close>; an exception of either call
  leaves the function.
\<close>

definition replace_number :: "pylib \<Rightarrow> ustring \<Rightarrow> error + ustring" where
  "replace_number L number =
     (case py_int L number of Inl e \<Rightarrow> Inl e | Inr n \<Rightarrow> num2words L n)"

text \<open>A piece of output in front of the rest of a result, when there is one.\<close>

fun prepend :: "ustring \<Rightarrow> error + ustring \<Rightarrow> error + ustring" where
  "prepend xs (Inl e) = Inl e"
| "prepend xs (Inr ys) = Inr (xs @ ys)"

text \<open>
  \<open>re.sub(r'\b\d+\b', replace_number, text)\<close>.  \<open>\b\<close> holds between two positions when
  exactly one of the characters beside it is a word character (the ends of the text
  count as non-word).  At a position with a boundary, \<open>\d+\<close> first takes the longest run
  of digits and gives characters back one at a time until the closing \<open>\b\<close> holds
  (\<open>try_lengths\<close>); a match is replaced and the scan continues after it, otherwise one
  character is copied.  The scan remembers the character before the position.  The
  replacement function is called at each match in turn, so the first exception it raises
  is the outcome of the whole substitution.
\<close>

fun word_at :: "pylib \<Rightarrow> uchar option \<Rightarrow> bool" where
  "word_at L None = False"
| "word_at L (Some c) = re_word L c"

definition word_boundary :: "pylib \<Rightarrow> uchar option \<Rightarrow> uchar option \<Rightarrow> bool" where
  "word_boundary L prev nxt \<longleftrightarrow> word_at L prev \<noteq> word_at L nxt"

definition char_at :: "ustring \<Rightarrow> nat \<Rightarrow> uchar option" where
  "char_at s k = (if k < length s then Some (s ! k) else None)"

fun try_lengths :: "pylib \<Rightarrow> ustring \<Rightarrow> nat \<Rightarrow> nat option" where
  "try_lengths L s 0 = None"
| "try_lengths L s (Suc k) =
     (if word_boundary L (char_at s k) (char_at s (Suc k)) then Some (Suc k)
      else try_lengths L s k)"

definition match_number :: "pylib \<Rightarrow> uchar option \<Rightarrow> ustring \<Rightarrow> nat option" where
  "match_number L prev s =
     (if word_boundary L prev (char_at s 0)
      then try_lengths L s (length (takeWhile (re_digit L) s))
      else None)"

lemma try_lengths_bounds: "try_lengths L s n = Some k \<Longrightarrow> 0 < k \<and> k \<le> n"
  by (induction n) (auto split: if_splits)

lemma match_number_bounds: "match_number L prev s = Some k \<Longrightarrow> 0 < k \<and> k \<le> length s"
proof -
  assume "match_number L prev s = Some k"
  then have "try_lengths L s (length (takeWhile (re_digit L) s)) = Some k"
    by (simp add: match_number_def split: if_splits)
  then have "0 < k \<and> k \<le> length (takeWhile (re_digit L) s)"
    by (rule try_lengths_bounds)
  moreover have "length (takeWhile (re_digit L) s) \<le> length s"
    by (rule length_takeWhile_le)
  ultimately show ?thesis by simp
qed

function sub_numbers :: "pylib \<Rightarrow> uchar option \<Rightarrow> ustring \<Rightarrow> error + ustring" where
  "sub_numbers L prev [] = Inr []"
| "sub_numbers L prev (c # s) =
     (case match_number L prev (c # s) of
        Some k \<Rightarrow>
          (case replace_number L (take k (c # s)) of
             Inl e \<Rightarrow> Inl e
           | Inr words \<Rightarrow>
               prepend words (sub_numbers L (char_at (c # s) (k - 1)) (drop k (c # s))))
      | None \<Rightarrow> prepend [c] (sub_numbers L (Some c) s))"
  by pat_completeness auto
termination
  by (relation "measure (\<lambda>(L, prev, s). length s)") (auto dest: match_number_bounds)

definition convert_numbers_to_arabic_text :: "pylib \<Rightarrow> ustring \<Rightarrow> error + ustring" where
  "convert_numbers_to_arabic_text L text =
     (let text_separated = sub_letter_digit L text;
          text_separated = sub_digit_letter L text_separated;
          text_translated = sub_numbers L None text_separated
      in text_translated)"

text \<open>
  The specification of the normaliser.  \<open>insert_spaces\<close> puts a space between every two
  adjacent characters that are a Latin letter and a digit, in either order.
  \<open>replace_runs\<close> goes through the text run by run: a maximal run of digits with no word
  character before it and none after it becomes \<open>num2words(int(run))\<close>; every other
  character stays.  When \<open>int\<close> or \<open>num2words\<close> raises on such a run, the exception of the
  leftmost such run is the outcome.
\<close>

fun insert_spaces :: "pylib \<Rightarrow> ustring \<Rightarrow> ustring" where
  "insert_spaces L (a # b # s) =
     (if (latin_letter a \<and> re_digit L b) \<or> (re_digit L a \<and> latin_letter b)
      then a # SPACE # insert_spaces L (b # s)
      else a # insert_spaces L (b # s))"
| "insert_spaces L s = s"

function replace_runs :: "pylib \<Rightarrow> uchar option \<Rightarrow> ustring \<Rightarrow> error + ustring" where
  "replace_runs L prev [] = Inr []"
| "replace_runs L prev (c # s) =
     (if re_digit L c then
        (let run = c # takeWhile (re_digit L) s;
             rest = dropWhile (re_digit L) s
         in if \<not> word_at L prev \<and> \<not> word_at L (char_at rest 0)
            then (case py_int L run of
                    Inl e \<Rightarrow> Inl e
                  | Inr n \<Rightarrow>
                      (case num2words L n of
                         Inl e \<Rightarrow> Inl e
                       | Inr words \<Rightarrow> prepend words (replace_runs L (Some (last run)) rest)))
            else prepend run (replace_runs L (Some (last run)) rest))
      else prepend [c] (replace_runs L (Some c) s))"
  by pat_completeness auto
termination
  by (relation "measure (\<lambda>(L, prev, s). length s)")
     (auto simp: less_Suc_eq_le length_dropWhile_le)

definition spec_convert :: "pylib \<Rightarrow> ustring \<Rightarrow> error + ustring" where
  "spec_convert L text = replace_runs L None (insert_spaces L text)"

text \<open>
  For the proofs: a space after every character that stands in the relation \<open>P\<close> to the
  character after it.
\<close>

fun ins :: "(uchar \<Rightarrow> uchar \<Rightarrow> bool) \<Rightarrow> ustring \<Rightarrow> ustring" where
  "ins P (a # b # s) = (if P a b then a # SPACE # ins P (b # s) else a # ins P (b # s))"
| "ins P s = s"

text \<open>
  What is used of the Unicode classes: a decimal digit is a word character and not a
  Latin letter, and the space is not a digit.
\<close>

definition unicode_classes :: "pylib \<Rightarrow> bool" where
  "unicode_classes L \<longleftrightarrow>
     (\<forall>c. re_digit L c \<longrightarrow> re_word L c \<and> \<not> latin_letter c) \<and> \<not> re_digit L SPACE"

text \<open>
  A small instance of the library for evaluating examples: ASCII and Arabic-Indic digits,
  ASCII and Arabic letters, and a stand-in for the words of a number.
\<close>

definition example_lib :: pylib where
  "example_lib = \<lparr>re_digit = (\<lambda>c. (48 \<le> c \<and> c \<le> 57) \<or> (1632 \<le> c \<and> c \<le> 1641)),
     re_word = (\<lambda>c. (48 \<le> c \<and> c \<le> 57) \<or> (1632 \<le> c \<and> c \<le> 1641) \<or> (65 \<le> c \<and> c \<le> 90) \<or> (97 \<le> c \<and> c \<le> 122) \<or> c = 95 \<or> (1568 \<le> c \<and> c \<le> 1610)),
     digit_value = (\<lambda>c. if c \<le> 57 then int c - 48 else int c - 1632),
     cardinal = (\<lambda>n. if n = 12 then [1000] else [2000]),
     str_lower = (\<lambda>s. s)\<rparr>"

section \<open>Synthesis of one text: \<open>infer\<close>\<close>

text \<open>
  The functions \<open>infer\<close> takes from \<open>f5_tts.infer.utils_infer\<close>, \<open>soundfile\<close> and
  \<open>torchaudio\<close>, with the loaded model and vocoder fixed.  A waveform is a list of samples
  of type \<open>'s\<close>, \<open>'g\<close> is a spectrogram and \<open>'f\<close> the content of a file.
  \<open>torchaudio_load\<close> stands for \<open>torchaudio.load\<close> followed by
  \<open>.squeeze().cpu().numpy()\<close>.  The notifications through \<open>show_info\<close> and the progress bar
  are left out.  The durations and the speed are floating-point numbers that \<open>infer\<close> only
  hands on; they are reals here.
\<close>

record ('s, 'g, 'f) ttslib =
  preprocess_ref_audio_text :: "pyval \<Rightarrow> pyval \<Rightarrow> ustring \<times> ustring"
  infer_process :: "ustring \<Rightarrow> ustring \<Rightarrow> ustring \<Rightarrow> real \<Rightarrow> real \<Rightarrow> 's list \<times> int \<times> 'g"
  sf_write :: "'s list \<Rightarrow> int \<Rightarrow> 'f"
  remove_silence_for_generated_wav :: "'f \<Rightarrow> 'f"
  torchaudio_load :: "'f \<Rightarrow> 's list \<times> int"
  save_spectrogram :: "'g \<Rightarrow> 'f"

text \<open>
  The temporary files.  \<open>tempfile.NamedTemporaryFile(delete=False)\<close> makes a file under a
  name not used before; names are numbers handed out in order.
\<close>

record 'f fstore =
  files :: "nat \<rightharpoonup> 'f"
  next_tmp :: nat

definition NamedTemporaryFile :: "'f fstore \<Rightarrow> nat \<times> 'f fstore" where
  "NamedTemporaryFile fs = (next_tmp fs, fs\<lparr>next_tmp := Suc (next_tmp fs)\<rparr>)"

definition write_file :: "'f fstore \<Rightarrow> nat \<Rightarrow> 'f \<Rightarrow> 'f fstore" where
  "write_file fs name content = fs\<lparr>files := (files fs)(name \<mapsto> content)\<rparr>"

text \<open>
  \<open>infer\<close>, in the three parts of its body: the preparation of \<open>gen_text\<close> before
  \<open>infer_process\<close> is called, the block under the comment \<open>Remove silence\<close>, and the saving
  of the spectrogram.  \<open>sf.write\<close> puts the waveform into the temporary file,
  \<open>remove_silence_for_generated_wav\<close> rewrites that file and \<open>torchaudio.load\<close> reads it back.
  An exception of the number conversion leaves \<open>infer\<close> before \<open>infer_process\<close> is called.
\<close>

definition prepare_gen_text :: "pylib \<Rightarrow> ustring \<Rightarrow> error + ustring" where
  "prepare_gen_text L gen_text =
     (let gen_text = (if \<not> prefix [SPACE] gen_text then [SPACE] @ gen_text else gen_text);
          gen_text = (if \<not> suffix [DOT, SPACE] gen_text then gen_text @ [DOT, SPACE] else gen_text);
          gen_text = str_lower L gen_text
      in convert_numbers_to_arabic_text L gen_text)"

definition remove_silence_step ::
  "('s, 'g, 'f) ttslib \<Rightarrow> 'f fstore \<Rightarrow> 's list \<Rightarrow> int \<Rightarrow> pyval \<Rightarrow> 's list \<times> 'f fstore" where
  "remove_silence_step T fs final_wave final_sample_rate remove_silence =
     (if truthy remove_silence then
        (let (f, fs) = NamedTemporaryFile fs;
             wav = sf_write T final_wave final_sample_rate;
             fs = write_file fs f wav;
             wav = remove_silence_for_generated_wav T wav;
             fs = write_file fs f wav;
             (final_wave, _) = torchaudio_load T wav
         in (final_wave, fs))
      else (final_wave, fs))"

definition infer ::
  "('s, 'g, 'f) ttslib \<Rightarrow> pylib \<Rightarrow> 'f fstore \<Rightarrow> pyval \<Rightarrow> pyval \<Rightarrow> ustring \<Rightarrow> pyval \<Rightarrow> pyval
   \<Rightarrow> real \<Rightarrow> real \<Rightarrow> error + (((int \<times> 's list) \<times> nat) \<times> 'f fstore)" where
  "infer T L fs ref_audio_orig ref_text gen_text model remove_silence cross_fade_duration speed =
     (let (ref_audio, ref_text) = preprocess_ref_audio_text T ref_audio_orig ref_text
      in case prepare_gen_text L gen_text of
           Inl e \<Rightarrow> Inl e
         | Inr gen_text \<Rightarrow>
             (let (final_wave, final_sample_rate, combined_spectrogram) =
                     infer_process T ref_audio ref_text gen_text cross_fade_duration speed;
                  (final_wave, fs) =
                     remove_silence_step T fs final_wave final_sample_rate remove_silence;
                  (spectrogram_path, fs) = NamedTemporaryFile fs;
                  fs = write_file fs spectrogram_path (save_spectrogram T combined_spectrogram)
              in Inr (((final_sample_rate, final_wave), spectrogram_path), fs)))"

text \<open>
  An instance of the synthesis library for evaluating examples.  Its \<open>infer_process\<close>
  returns the reference audio, the reference text and the text it is given, one after
  the other, as the waveform, so that all three show in the result; its silence removal
  drops the samples equal to 32.
\<close>

definition example_tts :: "(nat, nat, nat list) ttslib" where
  "example_tts =
     \<lparr>preprocess_ref_audio_text =
        (\<lambda>a r. (case a of PStr s \<Rightarrow> s | _ \<Rightarrow> [], case r of PStr s \<Rightarrow> s | _ \<Rightarrow> [])),
      infer_process = (\<lambda>ref_audio ref_text gen_text cross_fade_duration speed.
                         (ref_audio @ ref_text @ gen_text, 24000, length gen_text)),
      sf_write = (\<lambda>wave rate. wave),
      remove_silence_for_generated_wav = filter (\<lambda>x. x \<noteq> 32),
      torchaudio_load = (\<lambda>f. (f, 24000)),
      save_spectrogram = (\<lambda>g. [g])\<rparr>"

definition empty_fstore :: "'f fstore" where
  "empty_fstore = \<lparr>files = Map.empty, next_tmp = 0\<rparr>"

text \<open>
  The normal form of the generation text: one space in front unless the text starts with
  a space, \<open>". "\<close> at the end unless the text ends with it, then lowercase, then the numbers
  as words, or the exception of \<open>convert_numbers_to_arabic_text\<close> on that text.
\<close>

definition normalized_gen_text :: "pylib \<Rightarrow> ustring \<Rightarrow> error + ustring" where
  "normalized_gen_text L gen_text =
     convert_numbers_to_arabic_text L
       (str_lower L
          ((if prefix [SPACE] gen_text then [] else [SPACE]) @ gen_text
           @ (if suffix [DOT, SPACE] gen_text then [] else [DOT, SPACE])))"

section \<open>Whitespace, \<open>str.strip\<close> and the style-marker parser\<close>

text \<open>
  \<open>str.isspace\<close> on one code point: the Unicode whitespace characters, which are the
  characters \<open>str.strip()\<close> removes from both ends.
\<close>

definition isspace :: "uchar \<Rightarrow> bool" where
  "isspace c \<longleftrightarrow>
     (9 \<le> c \<and> c \<le> 13) \<or> (28 \<le> c \<and> c \<le> 32) \<or> c = 133 \<or> c = 160 \<or> c = 5760
     \<or> (8192 \<le> c \<and> c \<le> 8202) \<or> c = 8232 \<or> c = 8233 \<or> c = 8239 \<or> c = 8287
     \<or> c = 12288"

definition strip :: "ustring \<Rightarrow> ustring" where
  "strip s = rev (dropWhile isspace (rev (dropWhile isspace s)))"

text \<open>
  \<open>re.split(r"\{(.*?)\}", gen_text)\<close>.  A match starts at a \<open>{\<close>; the lazy group takes
  characters other than a newline until the first \<open>}\<close>.  \<open>match_group\<close> runs the group
  and the closing brace on the text after the \<open>{\<close> and returns the group and the text
  after the match.  The scan tries each position from the left; unmatched characters
  go to the current text token, and each match contributes its group as a token of its own.
\<close>

fun match_group :: "ustring \<Rightarrow> (ustring \<times> ustring) option" where
  "match_group [] = None"
| "match_group (c # cs) =
     (if c = RBRACE then Some ([], cs)
      else if c = NEWLINE then None
      else (case match_group cs of
              None \<Rightarrow> None
            | Some (g, rest) \<Rightarrow> Some (c # g, rest)))"

definition match_marker :: "ustring \<Rightarrow> (ustring \<times> ustring) option" where
  "match_marker s = (case s of [] \<Rightarrow> None | c # cs \<Rightarrow> if c = LBRACE then match_group cs else None)"

fun cons_first :: "uchar \<Rightarrow> ustring list \<Rightarrow> ustring list" where
  "cons_first c [] = [[c]]"
| "cons_first c (t # ts) = (c # t) # ts"

lemma match_group_shorter: "match_group cs = Some (g, rest) \<Longrightarrow> length rest < length cs"
  by (induction cs arbitrary: g rest) (auto split: if_splits option.splits)

lemma match_marker_shorter: "match_marker s = Some (g, rest) \<Longrightarrow> length rest < length s"
  by (auto simp: match_marker_def split: list.splits if_splits dest: match_group_shorter)

function re_split :: "ustring \<Rightarrow> ustring list" where
  "re_split [] = [[]]"
| "re_split (c # cs) =
     (case match_marker (c # cs) of
        Some (g, rest) \<Rightarrow> [] # g # re_split rest
      | None \<Rightarrow> cons_first c (re_split cs))"
  by pat_completeness auto
termination
  by (relation "measure length") (auto dest: match_marker_shorter)

record segment =
  style :: ustring
  text_of :: ustring

fun parse_loop :: "ustring list \<Rightarrow> nat \<Rightarrow> ustring \<Rightarrow> segment list \<Rightarrow> segment list" where
  "parse_loop [] i current_style segments = segments"
| "parse_loop (tok # tokens) i current_style segments =
     (if i mod 2 = 0 then
        (let text = strip tok in
           if text \<noteq> []
           then parse_loop tokens (i + 1) current_style
                  (segments @ [\<lparr>style = current_style, text_of = text\<rparr>])
           else parse_loop tokens (i + 1) current_style segments)
      else parse_loop tokens (i + 1) (strip tok) segments)"

definition parse_speechtypes_text :: "ustring \<Rightarrow> segment list" where
  "parse_speechtypes_text gen_text = parse_loop (re_split gen_text) 0 Regular []"

text \<open>
  The vocabulary of the parser's specification.  A marker starts at the head of a text when
  the text opens with \<open>{\<close> and a \<open>}\<close> follows before any newline; a marker's name has
  neither \<open>}\<close> nor newline.  \<open>render t ms\<close> is the text made of the chunk \<open>t\<close> followed by
  the markers and chunks \<open>ms\<close>, and \<open>leftmost_markers t ms\<close> says that each chunk is maximal:
  no marker starts inside a chunk.  \<open>labelled\<close> gives every chunk that is not blank the
  stripped name of the marker before it.
\<close>

fun starts_marker :: "ustring \<Rightarrow> bool" where
  "starts_marker [] = False"
| "starts_marker (c # cs) =
     (c = LBRACE \<and>
      (case dropWhile (\<lambda>x. x \<noteq> RBRACE \<and> x \<noteq> NEWLINE) cs of
         [] \<Rightarrow> False
       | d # _ \<Rightarrow> d = RBRACE))"

definition marker_name :: "ustring \<Rightarrow> bool" where
  "marker_name m \<longleftrightarrow> RBRACE \<notin> set m \<and> NEWLINE \<notin> set m"

fun render :: "ustring \<Rightarrow> (ustring \<times> ustring) list \<Rightarrow> ustring" where
  "render t [] = t"
| "render t ((m, t') # ms) = t @ [LBRACE] @ m @ [RBRACE] @ render t' ms"

fun leftmost_markers :: "ustring \<Rightarrow> (ustring \<times> ustring) list \<Rightarrow> bool" where
  "leftmost_markers t [] = (\<forall>k \<in> {..length t}. \<not> starts_marker (drop k t))"
| "leftmost_markers t ((m, t') # ms) =
     (marker_name m
      \<and> (\<forall>k \<in> {..<length t}. \<not> starts_marker (drop k (render t ((m, t') # ms))))
      \<and> leftmost_markers t' ms)"

fun labelled :: "ustring \<Rightarrow> ustring \<Rightarrow> (ustring \<times> ustring) list \<Rightarrow> segment list" where
  "labelled st t [] =
     (if strip t = [] then [] else [\<lparr>style = st, text_of = strip t\<rparr>])"
| "labelled st t ((m, t') # ms) =
     (if strip t = [] then [] else [\<lparr>style = st, text_of = strip t\<rparr>])
     @ labelled (strip m) t' ms"

fun tokens_of :: "ustring \<Rightarrow> (ustring \<times> ustring) list \<Rightarrow> ustring list" where
  "tokens_of t [] = [t]"
| "tokens_of t ((m, t') # ms) = t # m # tokens_of t' ms"

section \<open>The speech-type rows of the multi-style tab\<close>

text \<open>
  \<open>gr.update()\<close> leaves a component as it is, \<open>gr.update(visible=b)\<close> sets its visibility,
  \<open>gr.update(interactive=b)\<close> enables or disables it.
\<close>

datatype update = no_update | set_visible bool | set_interactive bool

definition max_speech_types :: int where
  "max_speech_types = 100"

text \<open>The index range \<open>range(max_speech_types - 1)\<close> of the additional rows.\<close>

definition row_range :: "nat list" where
  "row_range = [0..<nat (max_speech_types - 1)]"

definition add_speech_type_fn :: "int \<Rightarrow> int \<times> update list" where
  "add_speech_type_fn speech_type_count =
     (if speech_type_count < max_speech_types - 1 then
        (let speech_type_count = speech_type_count + 1 in
           (speech_type_count,
            map (\<lambda>i. if int i < speech_type_count then set_visible True else no_update) row_range))
      else (speech_type_count, map (\<lambda>_. no_update) row_range))"

definition make_delete_speech_type_fn :: "nat \<Rightarrow> int \<Rightarrow> int \<times> update list" where
  "make_delete_speech_type_fn index speech_type_count =
     (let row_updates = map (\<lambda>i. if i = index then set_visible False else no_update) row_range;
          speech_type_count = max 0 (speech_type_count - 1)
      in (speech_type_count, row_updates))"

text \<open>
  The state the two handlers read and write: the \<open>gr.State\<close> counter (initially 0) and the
  visibility of the 99 additional rows (all created with \<open>visible=False\<close>).  Both handlers
  are registered with \<open>inputs=speech_type_count\<close> and
  \<open>outputs=[speech_type_count] + speech_type_rows\<close>; a delete button exists for each row
  index below 99 only.
\<close>

record ui_state =
  speech_type_count :: int
  speech_type_rows :: "bool list"

definition init_ui :: ui_state where
  "init_ui = \<lparr>speech_type_count = 0,
              speech_type_rows = replicate (nat (max_speech_types - 1)) False\<rparr>"

fun apply_update :: "update \<Rightarrow> bool \<Rightarrow> bool" where
  "apply_update no_update v = v"
| "apply_update (set_visible b) v = b"
| "apply_update (set_interactive b) v = v"

definition apply_outputs :: "int \<times> update list \<Rightarrow> ui_state \<Rightarrow> ui_state" where
  "apply_outputs out s =
     \<lparr>speech_type_count = fst out,
      speech_type_rows = map (\<lambda>(u, v). apply_update u v) (zip (snd out) (speech_type_rows s))\<rparr>"

datatype click = Add_click | Delete_click nat

fun on_click :: "ui_state \<Rightarrow> click \<Rightarrow> ui_state" where
  "on_click s Add_click = apply_outputs (add_speech_type_fn (speech_type_count s)) s"
| "on_click s (Delete_click i) =
     (if int i < max_speech_types - 1
      then apply_outputs (make_delete_speech_type_fn i (speech_type_count s)) s
      else s)"

definition run_clicks :: "click list \<Rightarrow> ui_state" where
  "run_clicks cs = foldl on_click init_ui cs"

definition visible_rows :: "ui_state \<Rightarrow> nat" where
  "visible_rows s = length (filter id (speech_type_rows s))"

text \<open>
  The list \<open>speech_type_names\<close> of the name boxes starts as \<open>[regular_name]\<close> and gets the
  name box of each of the 99 additional rows; as handler inputs it stands for the values
  of these boxes.
\<close>

definition speech_type_names :: "pyval \<Rightarrow> pyval list \<Rightarrow> pyval list" where
  "speech_type_names regular_name name_inputs = [regular_name] @ name_inputs"

section \<open>Multi-style generation\<close>

text \<open>
  An entry of the dictionary \<open>speech_types\<close>: \<open>{"audio": ..., "ref_text": ...}\<close>.  The
  dictionary is a map from names to entries; it starts with the entry \<open>"Regular"\<close> and
  gets one entry for each additional speech type whose name and audio are both set.
\<close>

record speech_type =
  st_audio :: pyval
  st_ref_text :: pyval

definition collect_speech_types ::
  "pyval \<Rightarrow> pyval \<Rightarrow> pyval list \<Rightarrow> pyval list \<Rightarrow> pyval list \<Rightarrow> (pyval \<rightharpoonup> speech_type)" where
  "collect_speech_types regular_audio regular_ref_text
       speech_type_names_list speech_type_audios_list speech_type_ref_texts_list =
     fold (\<lambda>(name_input, audio_input, ref_text_input) speech_types.
             if truthy name_input \<and> truthy audio_input
             then speech_types(name_input \<mapsto>
                    \<lparr>st_audio = audio_input, st_ref_text = ref_text_input\<rparr>)
             else speech_types)
       (zip speech_type_names_list (zip speech_type_audios_list speech_type_ref_texts_list))
       [PStr Regular \<mapsto> \<lparr>st_audio = regular_audio, st_ref_text = regular_ref_text\<rparr>]"

text \<open>
  The loop over the segments.  Its state is the list of generated waveforms, the sample
  rate of the last call of \<open>infer\<close> (unbound before the first) and the file store.
  \<open>current_style\<close> is assigned in every round before it is read.  \<open>infer\<close> is called with
  cross-fade duration 0 and the default speed 1; an exception of \<open>infer\<close> leaves the loop.
\<close>

fun synth_segments ::
  "('s, 'g, 'f) ttslib \<Rightarrow> pylib \<Rightarrow> (pyval \<rightharpoonup> speech_type) \<Rightarrow> pyval \<Rightarrow> pyval \<Rightarrow> segment list
   \<Rightarrow> 's list list \<times> int option \<times> 'f fstore
   \<Rightarrow> error + ('s list list \<times> int option \<times> 'f fstore)" where
  "synth_segments T L speech_types model_choice remove_silence [] state = Inr state"
| "synth_segments T L speech_types model_choice remove_silence (segment # segments)
       (generated_audio_segments, sr, fs) =
     (let current_style =
            (if speech_types (PStr (style segment)) \<noteq> None then style segment else Regular)
      in case speech_types (PStr current_style) of
           None \<Rightarrow> Inl KeyError
         | Some entry \<Rightarrow>
             (case infer T L fs (st_audio entry) (st_ref_text entry) (text_of segment)
                     model_choice remove_silence 0 1 of
                Inl e \<Rightarrow> Inl e
              | Inr ((audio, spectrogram_path), fs) \<Rightarrow>
                  (let (sr, audio_data) = audio
                   in synth_segments T L speech_types model_choice remove_silence segments
                        (generated_audio_segments @ [audio_data], Some sr, fs))))"

text \<open>The message of \<open>gr.Warning\<close> when nothing was generated.\<close>

definition no_audio_warning :: ustring where
  "no_audio_warning = [1604, 1605, 32, 1610, 1578, 1605, 32, 1573, 1606, 1588, 1575, 1569, 32,
     1571, 1610, 32, 1589, 1608, 1578, 46]"

text \<open>
  \<open>generate_multistyle_speech(regular_audio, regular_ref_text, gen_text, *args)\<close>.  The
  slices of \<open>args\<close> never fail; the two index reads raise \<open>IndexError\<close> on a short \<open>args\<close>.
  The result is the returned value, the warnings issued and the file store.
\<close>

definition generate_multistyle_speech ::
  "('s, 'g, 'f) ttslib \<Rightarrow> pylib \<Rightarrow> 'f fstore \<Rightarrow> pyval \<Rightarrow> pyval \<Rightarrow> ustring \<Rightarrow> pyval list
   \<Rightarrow> error + ((int \<times> 's list) option \<times> ustring list \<times> 'f fstore)" where
  "generate_multistyle_speech T L fs regular_audio regular_ref_text gen_text args =
     (let num_additional_speech_types = nat (max_speech_types - 1);
          speech_type_names_list = take num_additional_speech_types args;
          speech_type_audios_list =
            take num_additional_speech_types (drop num_additional_speech_types args);
          speech_type_ref_texts_list =
            take num_additional_speech_types (drop (2 * num_additional_speech_types) args)
      in if length args \<le> 3 * num_additional_speech_types + 1 then Inl IndexError
         else
           (let model_choice = args ! (3 * num_additional_speech_types);
                remove_silence = args ! (3 * num_additional_speech_types + 1);
                speech_types = collect_speech_types regular_audio regular_ref_text
                   speech_type_names_list speech_type_audios_list speech_type_ref_texts_list;
                segments = parse_speechtypes_text gen_text
            in case synth_segments T L speech_types model_choice remove_silence segments
                      ([], None, fs) of
                 Inl e \<Rightarrow> Inl e
               | Inr (generated_audio_segments, sr, fs) \<Rightarrow>
                   if generated_audio_segments \<noteq> [] then
                     (case sr of
                        None \<Rightarrow> Inl UnboundLocalError
                      | Some sr \<Rightarrow> Inr (Some (sr, concat generated_audio_segments), [], fs))
                   else Inr (None, [no_audio_warning], fs)))"

text \<open>
  The click handler of the generate button is registered with
  \<open>inputs=[regular_audio, regular_ref_text, gen_text_input_multistyle] + speech_type_names
  + speech_type_audios + speech_type_ref_texts + [model_choice_multistyle,
  remove_silence_multistyle]\<close>; \<open>generate_click_args\<close> is what \<open>args\<close> then holds.
\<close>

definition generate_click_args ::
  "pyval \<Rightarrow> pyval list \<Rightarrow> pyval list \<Rightarrow> pyval list \<Rightarrow> pyval \<Rightarrow> pyval \<Rightarrow> pyval list" where
  "generate_click_args regular_name name_inputs audio_inputs ref_text_inputs
       model_choice remove_silence =
     speech_type_names regular_name name_inputs @ audio_inputs @ ref_text_inputs
     @ [model_choice, remove_silence]"

text \<open>
  For the specification.  \<open>speech_type_triples\<close> are the 99 additional speech types as
  \<open>args\<close> holds them: the name at position \<open>k\<close>, the audio at \<open>99 + k\<close> and the reference
  text at \<open>198 + k\<close>.  The speech type \<open>configured\<close> under a name is the last of them with
  that name whose name and audio are both set; when there is none, the name \<open>"Regular"\<close>
  stands for the regular audio and reference text and any other name is not configured.
\<close>

definition speech_type_triples :: "pyval list \<Rightarrow> (pyval \<times> pyval \<times> pyval) list" where
  "speech_type_triples args = map (\<lambda>k. (args ! k, args ! (99 + k), args ! (198 + k))) [0..<99]"

definition configured :: "pyval \<Rightarrow> pyval \<Rightarrow> pyval list \<Rightarrow> pyval \<Rightarrow> speech_type option" where
  "configured regular_audio regular_ref_text args name =
     (case filter (\<lambda>(n, a, r). n = name \<and> truthy n \<and> truthy a) (speech_type_triples args) of
        [] \<Rightarrow> (if name = PStr Regular
               then Some \<lparr>st_audio = regular_audio, st_ref_text = regular_ref_text\<rparr>
               else None)
      | t # ts \<Rightarrow> Some \<lparr>st_audio = fst (snd (last (t # ts))),
                        st_ref_text = snd (snd (last (t # ts)))\<rparr>)"

text \<open>
  \<open>speech_types_of\<close> is the dictionary the function builds from the three slices of
  \<open>args\<close>; \<open>selected\<close> is the entry of a segment's style, or the given regular entry when
  the style has none.  \<open>clip\<close> is the sample rate and waveform \<open>infer\<close> returns for one text
  with the reference audio and text of an entry, or the exception it raises (neither
  depends on the file store).  \<open>clips_of\<close> makes the clips of the segments in order, up to
  the first exception.
\<close>

definition speech_types_of :: "pyval \<Rightarrow> pyval \<Rightarrow> pyval list \<Rightarrow> (pyval \<rightharpoonup> speech_type)" where
  "speech_types_of regular_audio regular_ref_text args =
     collect_speech_types regular_audio regular_ref_text
       (take 99 args) (take 99 (drop 99 args)) (take 99 (drop 198 args))"

definition selected :: "(pyval \<rightharpoonup> speech_type) \<Rightarrow> speech_type \<Rightarrow> segment \<Rightarrow> speech_type" where
  "selected speech_types regular segment =
     (case speech_types (PStr (style segment)) of Some entry \<Rightarrow> entry | None \<Rightarrow> regular)"

definition clip ::
  "('s, 'g, 'f) ttslib \<Rightarrow> pylib \<Rightarrow> speech_type \<Rightarrow> pyval \<Rightarrow> pyval \<Rightarrow> ustring
   \<Rightarrow> error + (int \<times> 's list)" where
  "clip T L entry model_choice remove_silence text =
     (case infer T L empty_fstore (st_audio entry) (st_ref_text entry) text
             model_choice remove_silence 0 1 of
        Inl e \<Rightarrow> Inl e
      | Inr out \<Rightarrow> Inr (fst (fst out)))"

fun clips_of :: "(segment \<Rightarrow> error + 'c) \<Rightarrow> segment list \<Rightarrow> error + 'c list" where
  "clips_of f [] = Inr []"
| "clips_of f (segment # segments) =
     (case f segment of
        Inl e \<Rightarrow> Inl e
      | Inr c \<Rightarrow> (case clips_of f segments of Inl e \<Rightarrow> Inl e | Inr cs \<Rightarrow> Inr (c # cs)))"

text \<open>
  Arguments for evaluating examples: one additional speech type \<open>"S"\<close> with the audio
  \<open>"s"\<close> and the reference text \<open>"t"\<close>, the model choice \<open>"F5-TTS"\<close> and silence removal
  switched off.
\<close>

definition example_args :: "pyval list" where
  "example_args =
     (PStr [83] # replicate 98 PNone) @ (PStr [115] # replicate 98 PNone)
     @ (PStr [116] # replicate 98 PNone) @ [PStr [70, 53, 45, 84, 84, 83], PBool False]"

section \<open>Validation of the speech types used in the text\<close>

text \<open>
  \<open>validate_speech_types(gen_text, regular_name, *args)\<close> returns the update for the generate
  button.  It is registered as the change handler of the generation text with
  \<open>inputs=[gen_text_input_multistyle, regular_name] + speech_type_names\<close>.
\<close>

definition validate_speech_types :: "ustring \<Rightarrow> pyval \<Rightarrow> pyval list \<Rightarrow> update" where
  "validate_speech_types gen_text regular_name args =
     (let num_additional_speech_types = nat (max_speech_types - 1);
          speech_type_names_list = take num_additional_speech_types args;
          speech_types_available = (if truthy regular_name then {regular_name} else {});
          speech_types_available =
            fold (\<lambda>name_input available.
                    if truthy name_input then insert name_input available else available)
              speech_type_names_list speech_types_available;
          segments = parse_speechtypes_text gen_text;
          speech_types_in_text = set (map (\<lambda>segment. PStr (style segment)) segments);
          missing_speech_types = speech_types_in_text - speech_types_available
      in if missing_speech_types \<noteq> {} then set_interactive False else set_interactive True)"

definition gen_text_change :: "ustring \<Rightarrow> pyval \<Rightarrow> pyval list \<Rightarrow> update" where
  "gen_text_change gen_text regular_name name_inputs =
     validate_speech_types gen_text regular_name
       (speech_type_names regular_name name_inputs)"

text \<open>
  The configured speech-type names: the regular name when it is not empty, and every
  additional name field that is not empty.
\<close>

definition configured_names :: "pyval \<Rightarrow> pyval list \<Rightarrow> pyval set" where
  "configured_names regular_name name_inputs =
     (if truthy regular_name then {regular_name} else {}) \<union> {n \<in> set name_inputs. truthy n}"

section \<open>Voice chat\<close>

text \<open>
  A chat message \<open>{"role": ..., "content": ...}\<close>, and what \<open>generate_response\<close> takes from
  the tokenizer and the language model: the chat template, the tokenizer, \<open>model.generate\<close>
  (whose output starts with the prompt tokens) and \<open>batch_decode\<close>.
\<close>

record message =
  role :: ustring
  content :: ustring

record 't chatlib =
  apply_chat_template :: "message list \<Rightarrow> ustring"
  tokenizer :: "ustring \<Rightarrow> 't list"
  model_generate :: "'t list \<Rightarrow> 't list"
  batch_decode :: "'t list \<Rightarrow> ustring"

definition generate_response :: "'t chatlib \<Rightarrow> message list \<Rightarrow> ustring" where
  "generate_response C messages =
     (let text = apply_chat_template C messages;
          input_ids = tokenizer C text;
          output_ids = model_generate C input_ids;
          generated_ids = drop (length input_ids) output_ids
      in batch_decode C generated_ids)"

definition role_user :: ustring where
  "role_user = [117, 115, 101, 114]"

definition role_assistant :: ustring where
  "role_assistant = [97, 115, 115, 105, 115, 116, 97, 110, 116]"

text \<open>
  \<open>process_audio_input(audio_path, text, history, conv_state)\<close>.  The two lists are
  changed in place and returned; here the changed lists are the returned ones.  The
  history holds pairs of a user message and a reply, the reply being \<open>None\<close> until it is
  generated.
\<close>

definition process_audio_input ::
  "('s, 'g, 'f) ttslib \<Rightarrow> 't chatlib \<Rightarrow> pyval \<Rightarrow> ustring \<Rightarrow> (ustring \<times> ustring option) list
   \<Rightarrow> message list \<Rightarrow> (ustring \<times> ustring option) list \<times> message list \<times> ustring" where
  "process_audio_input T C audio_path text history conv_state =
     (if \<not> truthy audio_path \<and> \<not> strip text \<noteq> [] then (history, conv_state, [])
      else
        (let text = (if truthy audio_path
                     then snd (preprocess_ref_audio_text T audio_path (PStr text))
                     else text)
         in if \<not> strip text \<noteq> [] then (history, conv_state, [])
            else
              (let conv_state = conv_state @ [\<lparr>role = role_user, content = text\<rparr>];
                   history = history @ [(text, None)];
                   response = generate_response C conv_state;
                   conv_state = conv_state @ [\<lparr>role = role_assistant, content = response\<rparr>];
                   history = history[length history - 1 := (text, Some response)]
               in (history, conv_state, []))))"

text \<open>
  The user message of a call: the transcription returned by
  \<open>preprocess_ref_audio_text\<close> when an audio path is given, the text box otherwise.
\<close>

definition user_message :: "('s, 'g, 'f) ttslib \<Rightarrow> pyval \<Rightarrow> ustring \<Rightarrow> ustring" where
  "user_message T audio_path text =
     (if truthy audio_path then snd (preprocess_ref_audio_text T audio_path (PStr text))
      else text)"

text \<open>A chat library for evaluating examples; its model always answers \<open>"ok"\<close>.\<close>

definition example_chat :: "nat chatlib" where
  "example_chat =
     \<lparr>apply_chat_template = (\<lambda>messages. concat (map content messages)),
      tokenizer = (\<lambda>text. text),
      model_generate = (\<lambda>input_ids. input_ids @ [111, 107]),
      batch_decode = (\<lambda>ids. ids)\<rparr>"

section \<open>The top-level tabs\<close>

text \<open>
  \<open>gr.TabbedInterface(interface_list, tab_names)\<close> renders one tab per interface, titled by
  the name at the same position, in list order.
\<close>

datatype blocks = app_tts | app_multistyle | app_chat | app_credits

definition TabbedInterface :: "blocks list \<Rightarrow> ustring list \<Rightarrow> (ustring \<times> blocks) list" where
  "TabbedInterface interface_list tab_names = zip tab_names interface_list"

definition app :: "(ustring \<times> blocks) list" where
  "app = TabbedInterface
     [app_tts, app_multistyle, app_chat, app_credits]
     [[128483, 65039, 32, 1578, 1581, 1608, 1610, 1604, 32, 1575, 1604, 1606, 1589, 32,
       1573, 1604, 1609, 32, 1603, 1604, 1575, 1605],
      [127917, 32, 1571, 1606, 1605, 1575, 1591, 32, 1589, 1608, 1578, 1610, 1577, 32,
       1605, 1578, 1593, 1583, 1583, 1577],
      [128172, 32, 1583, 1585, 1583, 1588, 1577, 32, 1589, 1608, 1578, 1610, 1577],
      [128220, 32, 1575, 1604, 1575, 1593, 1578, 1605, 1575, 1583, 1575, 1578]]"

section \<open>Properties of the number normalisation\<close>

lemma ins_Cons: "\<exists>r. ins P (b # s) = b # r"
  by (cases s) auto

lemma ins_skip: "(\<And>x. \<not> P b x) \<Longrightarrow> ins P (b # s) = b # ins P s"
  by (cases s) auto

lemma sub_letter_digit_ins:
  "(\<And>c. re_digit L c \<Longrightarrow> \<not> latin_letter c) \<Longrightarrow>
   sub_letter_digit L s = ins (\<lambda>a b. latin_letter a \<and> re_digit L b) s"
proof (induction L s rule: sub_letter_digit.induct)
  case (1 L a b s)
  show ?case
  proof (cases "latin_letter a \<and> re_digit L b")
    case True
    then have "\<not> latin_letter b" using "1.prems" by blast
    then have "ins (\<lambda>a b. latin_letter a \<and> re_digit L b) (b # s)
               = b # ins (\<lambda>a b. latin_letter a \<and> re_digit L b) s"
      by (intro ins_skip) simp
    moreover have "sub_letter_digit L s = ins (\<lambda>a b. latin_letter a \<and> re_digit L b) s"
      using True "1.prems" by (intro "1.IH"(1)) simp_all
    ultimately show ?thesis using True by simp
  next
    case False
    have "sub_letter_digit L (b # s) = ins (\<lambda>a b. latin_letter a \<and> re_digit L b) (b # s)"
      using False "1.prems" by (intro "1.IH"(2)) simp_all
    then show ?thesis by (simp add: False)
  qed
qed simp_all

lemma sub_digit_letter_ins:
  "(\<And>c. re_digit L c \<Longrightarrow> \<not> latin_letter c) \<Longrightarrow>
   sub_digit_letter L s = ins (\<lambda>a b. re_digit L a \<and> latin_letter b) s"
proof (induction L s rule: sub_digit_letter.induct)
  case (1 L a b s)
  show ?case
  proof (cases "re_digit L a \<and> latin_letter b")
    case True
    then have "\<not> re_digit L b" using "1.prems" by blast
    then have "ins (\<lambda>a b. re_digit L a \<and> latin_letter b) (b # s)
               = b # ins (\<lambda>a b. re_digit L a \<and> latin_letter b) s"
      by (intro ins_skip) simp
    moreover have "sub_digit_letter L s = ins (\<lambda>a b. re_digit L a \<and> latin_letter b) s"
      using True "1.prems" by (intro "1.IH"(1)) simp_all
    ultimately show ?thesis using True by simp
  next
    case False
    have "sub_digit_letter L (b # s) = ins (\<lambda>a b. re_digit L a \<and> latin_letter b) (b # s)"
      using False "1.prems" by (intro "1.IH"(2)) simp_all
    then show ?thesis by (simp add: False)
  qed
qed simp_all

lemma insert_spaces_ins:
  "insert_spaces L s
   = ins (\<lambda>a b. (latin_letter a \<and> re_digit L b) \<or> (re_digit L a \<and> latin_letter b)) s"
  by (induction L s rule: insert_spaces.induct) simp_all

lemma ins_ins:
  assumes "\<And>x. \<not> Q x SPACE" and "\<And>x. \<not> Q SPACE x"
  shows "ins Q (ins P s) = ins (\<lambda>a b. P a b \<or> Q a b) s"
proof (induction P s rule: ins.induct)
  case (1 P a b s)
  obtain r where r: "ins P (b # s) = b # r" using ins_Cons by blast
  show ?case
  proof (cases "P a b")
    case True
    from "1.IH"(1) [OF True] r
    have IH: "ins Q (b # r) = ins (\<lambda>a b. P a b \<or> Q a b) (b # s)" by simp
    have "ins Q (ins P (a # b # s)) = ins Q (a # SPACE # b # r)"
      using True r by simp
    also have "\<dots> = a # SPACE # ins Q (b # r)"
      using assms by simp
    finally show ?thesis using True IH by simp
  next
    case False
    from "1.IH"(2) [OF False] r
    have IH: "ins Q (b # r) = ins (\<lambda>a b. P a b \<or> Q a b) (b # s)" by simp
    have "ins Q (ins P (a # b # s)) = ins Q (a # b # r)"
      using False r by simp
    also have "\<dots> = (if Q a b then a # SPACE # ins Q (b # r) else a # ins Q (b # r))"
      by simp
    finally show ?thesis using False IH by simp
  qed
qed simp_all

lemma separate_insert_spaces:
  assumes "unicode_classes L"
  shows "sub_digit_letter L (sub_letter_digit L s) = insert_spaces L s"
proof -
  from assms have nl: "\<And>c. re_digit L c \<Longrightarrow> \<not> latin_letter c"
    and sp: "\<not> re_digit L SPACE"
    by (auto simp: unicode_classes_def)
  have sl: "\<not> latin_letter SPACE" by (simp add: latin_letter_def SPACE_def)
  have "sub_digit_letter L (sub_letter_digit L s)
        = ins (\<lambda>a b. re_digit L a \<and> latin_letter b)
            (ins (\<lambda>a b. latin_letter a \<and> re_digit L b) s)"
    using nl by (simp add: sub_letter_digit_ins sub_digit_letter_ins)
  also have "\<dots> = ins (\<lambda>a b. (latin_letter a \<and> re_digit L b) \<or> (re_digit L a \<and> latin_letter b)) s"
    using sp sl by (intro ins_ins) simp_all
  finally show ?thesis by (simp add: insert_spaces_ins)
qed


lemma takeWhile_prefix_digit:
  "k < length (takeWhile P s) \<Longrightarrow> k < length s \<and> P (s ! k)"
proof -
  assume k: "k < length (takeWhile P s)"
  then have "takeWhile P s ! k \<in> set (takeWhile P s)" by simp
  then have "P (takeWhile P s ! k)" by (rule set_takeWhileD [THEN conjunct2])
  moreover have "takeWhile P s ! k = s ! k" using k by (rule takeWhile_nth)
  moreover have "length (takeWhile P s) \<le> length s" by (rule length_takeWhile_le)
  ultimately show ?thesis using k by simp
qed

lemma try_lengths_inside_run:
  assumes "\<forall>c. re_digit L c \<longrightarrow> re_word L c"
  shows "k < length (takeWhile (re_digit L) s) \<Longrightarrow> try_lengths L s k = None"
proof (induction k)
  case 0
  show ?case by simp
next
  case (Suc k)
  from Suc.prems have "k < length (takeWhile (re_digit L) s)" by simp
  then have a: "k < length s \<and> re_digit L (s ! k)" by (rule takeWhile_prefix_digit)
  from Suc.prems have b: "Suc k < length s \<and> re_digit L (s ! Suc k)"
    by (rule takeWhile_prefix_digit)
  from a b assms have "\<not> word_boundary L (char_at s k) (char_at s (Suc k))"
    by (simp add: word_boundary_def char_at_def)
  moreover have "try_lengths L s k = None" using Suc by simp
  ultimately show ?case by simp
qed

lemma match_number_digit:
  assumes "\<forall>c. re_digit L c \<longrightarrow> re_word L c" and "re_digit L c"
  shows "match_number L prev (c # s) =
     (if \<not> word_at L prev \<and> \<not> word_at L (char_at (dropWhile (re_digit L) s) 0)
      then Some (Suc (length (takeWhile (re_digit L) s))) else None)"
proof -
  let ?n = "length (takeWhile (re_digit L) s)"
  have tw: "takeWhile (re_digit L) (c # s) = c # takeWhile (re_digit L) s"
    using assms(2) by simp
  have inner: "try_lengths L (c # s) ?n = None"
    using try_lengths_inside_run [OF assms(1), of ?n "c # s"] tw by simp
  have start: "word_boundary L prev (char_at (c # s) 0) \<longleftrightarrow> \<not> word_at L prev"
    using assms by (simp add: word_boundary_def char_at_def)
  have lastd: "re_digit L ((c # s) ! ?n)"
    using takeWhile_prefix_digit [of ?n "re_digit L" "c # s"] tw by simp
  have nxt: "char_at (c # s) (Suc ?n) = char_at (dropWhile (re_digit L) s) 0"
  proof (cases "dropWhile (re_digit L) s")
    case Nil
    have "takeWhile (re_digit L) s = s" using Nil by simp
    then have n: "?n = length s" by (rule arg_cong)
    have "char_at (c # s) (Suc (length s)) = char_at [] 0" by (simp add: char_at_def)
    then show ?thesis unfolding n Nil .
  next
    case (Cons d ds)
    have "(takeWhile (re_digit L) s @ dropWhile (re_digit L) s) ! ?n = d"
      unfolding Cons by (rule nth_append_length)
    then have d: "s ! ?n = d" by simp
    have "length (takeWhile (re_digit L) s @ dropWhile (re_digit L) s) = ?n + Suc (length ds)"
      unfolding Cons by simp
    then have "?n < length s" by simp
    with d show ?thesis unfolding Cons by (simp add: char_at_def)
  qed
  have len: "?n < length (c # s)"
    using length_takeWhile_le [of "re_digit L" s] by simp
  have endb: "word_boundary L (char_at (c # s) ?n) (char_at (c # s) (Suc ?n))
              \<longleftrightarrow> \<not> word_at L (char_at (dropWhile (re_digit L) s) 0)"
    using lastd len assms(1) unfolding nxt by (simp add: word_boundary_def char_at_def)
  show ?thesis
    unfolding match_number_def tw using start endb inner by simp
qed

lemma match_number_no_digit:
  "\<not> re_digit L c \<Longrightarrow> match_number L prev (c # s) = None"
  by (simp add: match_number_def)

lemma prepend_Nil: "prepend [] r = r"
  by (cases r) simp_all

lemma prepend_prepend: "prepend xs (prepend ys r) = prepend (xs @ ys) r"
  by (cases r) simp_all

lemma sub_numbers_inside_word:
  assumes "\<forall>c. re_digit L c \<longrightarrow> re_word L c"
  shows "word_at L prev \<Longrightarrow> \<forall>c \<in> set run. re_digit L c \<Longrightarrow>
     sub_numbers L prev (run @ rest)
     = prepend run (sub_numbers L (if run = [] then prev else Some (last run)) rest)"
proof (induction run arbitrary: prev)
  case Nil
  show ?case by (simp add: prepend_Nil)
next
  case (Cons c run)
  from Cons.prems have d: "re_digit L c" by simp
  have "match_number L prev (c # run @ rest) = None"
    using match_number_digit [OF assms d] Cons.prems(1) by simp
  moreover have "word_at L (Some c)" using d assms by simp
  then have "sub_numbers L (Some c) (run @ rest)
     = prepend run (sub_numbers L (if run = [] then Some c else Some (last run)) rest)"
    using Cons.prems(2) by (intro Cons.IH) simp_all
  ultimately show ?case by (simp add: prepend_prepend)
qed

lemma sub_numbers_replace_runs:
  assumes "\<forall>c. re_digit L c \<longrightarrow> re_word L c"
  shows "sub_numbers L prev s = replace_runs L prev s"
  using assms
proof (induction L prev s rule: replace_runs.induct)
  case (1 L prev)
  show ?case by simp
next
  case (2 L prev c s)
  note D = "2.prems"
  show ?case
  proof (cases "re_digit L c")
    case False
    have "sub_numbers L (Some c) s = replace_runs L (Some c) s"
      using False D by (intro "2.IH"(3)) simp_all
    with False show ?thesis by (simp add: match_number_no_digit)
  next
    case True
    let ?tw = "takeWhile (re_digit L) s"
    let ?rest = "dropWhile (re_digit L) s"
    let ?run = "c # ?tw"
    have split: "c # s = ?run @ ?rest" by simp
    show ?thesis
    proof (cases "\<not> word_at L prev \<and> \<not> word_at L (char_at ?rest 0)")
      case bound: True
      have m: "match_number L prev (c # s) = Some (Suc (length ?tw))"
        using match_number_digit [OF D True] bound by simp
      have tk: "take (Suc (length ?tw)) (c # s) = ?run"
        by (metis split append_eq_conv_conj length_Cons)
      have dr: "drop (Suc (length ?tw)) (c # s) = ?rest"
        by (metis split append_eq_conv_conj length_Cons)
      have la: "char_at (c # s) (Suc (length ?tw) - 1) = Some (last ?run)"
      proof -
        have "length ?tw < length (c # s)"
          using length_takeWhile_le [of "re_digit L" s] by simp
        moreover have "(c # s) ! length ?tw = last ?run"
          by (metis split last_conv_nth length_Cons diff_Suc_1 list.distinct(1) nth_append lessI)
        ultimately show ?thesis by (simp add: char_at_def)
      qed
      have code: "sub_numbers L prev (c # s)
            = (case replace_number L ?run of
                 Inl e \<Rightarrow> Inl e
               | Inr words \<Rightarrow> prepend words (sub_numbers L (Some (last ?run)) ?rest))"
        using m tk dr la by (simp split: sum.split del: take_Suc_Cons drop_Suc_Cons last.simps)
      show ?thesis
      proof (cases "py_int L ?run")
        case (Inl e)
        with code bound True show ?thesis
          by (simp add: replace_number_def Let_def del: last.simps)
      next
        case (Inr n)
        note n = this
        show ?thesis
        proof (cases "num2words L n")
          case (Inl e)
          with code n bound True show ?thesis
            by (simp add: replace_number_def Let_def del: last.simps)
        next
          case (Inr words)
          have IH: "sub_numbers L (Some (last ?run)) ?rest
                    = replace_runs L (Some (last ?run)) ?rest"
            using True D bound n Inr by (intro "2.IH"(1)) simp_all
          with code n Inr bound True show ?thesis
            by (simp add: replace_number_def Let_def del: last.simps)
        qed
      qed
    next
      case nobound: False
      have IH: "sub_numbers L (Some (last ?run)) ?rest = replace_runs L (Some (last ?run)) ?rest"
        using True D nobound by (intro "2.IH"(2)) simp_all
      have m: "match_number L prev (c # s) = None"
        using match_number_digit [OF D True] nobound by simp
      have w: "word_at L (Some c)" using True D by simp
      have "\<forall>x \<in> set ?tw. re_digit L x" by (auto dest: set_takeWhileD)
      with w have "sub_numbers L (Some c) (?tw @ ?rest)
            = prepend ?tw (sub_numbers L (if ?tw = [] then Some c else Some (last ?tw)) ?rest)"
        using sub_numbers_inside_word [OF D] by blast
      then have "sub_numbers L (Some c) s
                 = prepend ?tw (sub_numbers L (Some (last ?run)) ?rest)"
        by simp
      with m IH True show ?thesis
        by (simp add: nobound Let_def prepend_prepend del: last.simps)
    qed
  qed
qed

lemma convert_numbers_spec_convert:
  assumes "unicode_classes L"
  shows "convert_numbers_to_arabic_text L text = spec_convert L text"
proof -
  from assms have D: "\<forall>c. re_digit L c \<longrightarrow> re_word L c"
    by (simp add: unicode_classes_def)
  show ?thesis
    unfolding convert_numbers_to_arabic_text_def spec_convert_def Let_def
    by (simp add: separate_insert_spaces [OF assms] sub_numbers_replace_runs [OF D])
qed

lemma replace_number_errors:
  "replace_number L number = Inl e \<Longrightarrow> e = ValueError \<or> e = OverflowError"
  by (auto simp: replace_number_def py_int_def num2words_def split: sum.splits if_splits)

lemma prepend_Inl: "prepend xs r = Inl e \<Longrightarrow> r = Inl e"
  by (cases r) simp_all

lemma sub_numbers_errors:
  "sub_numbers L prev s = Inl e \<Longrightarrow> e = ValueError \<or> e = OverflowError"
proof (induction L prev s rule: sub_numbers.induct)
  case (1 L prev)
  then show ?case by simp
next
  case (2 L prev c s)
  show ?case
  proof (cases "match_number L prev (c # s)")
    case None
    with "2.prems" have "sub_numbers L (Some c) s = Inl e"
      by (auto dest: prepend_Inl)
    then show ?thesis by (rule "2.IH"(1) [OF None])
  next
    case (Some k)
    show ?thesis
    proof (cases "replace_number L (take k (c # s))")
      case (Inl e')
      with Some "2.prems" have "e' = e" by simp
      with Inl replace_number_errors show ?thesis by blast
    next
      case (Inr words)
      with Some "2.prems"
      have "sub_numbers L (char_at (c # s) (k - 1)) (drop k (c # s)) = Inl e"
        by (auto dest: prepend_Inl)
      then show ?thesis by (rule "2.IH"(2) [OF Some Inr])
    qed
  qed
qed

lemma convert_numbers_errors:
  "convert_numbers_to_arabic_text L text = Inl e \<Longrightarrow> e = ValueError \<or> e = OverflowError"
  unfolding convert_numbers_to_arabic_text_def Let_def by (rule sub_numbers_errors)

text \<open>
  Claim C2, as the code has it.  For every text, \<open>convert_numbers_to_arabic_text\<close> first
  inserts a space between every adjacent Latin-letter/digit pair, in both orders, and then
  goes through the maximal runs of decimal digits that are delimited by word boundaries.
  When \<open>int\<close> and \<open>num2words\<close> return on each of these runs (a run of at most 4300 digits
  with a value below \<open>10 ** 51\<close>), it returns the text with each of them replaced by
  \<open>num2words(int(run), lang='ar')\<close> and every other character as it is; otherwise it
  raises the exception of the leftmost run on which one of the two raises.
\<close>

theorem convert_numbers_to_arabic_text_spec:
  assumes "unicode_classes L"
  shows "convert_numbers_to_arabic_text L text = spec_convert L text"
  using assms by (rule convert_numbers_spec_convert)

text \<open>
  The theorem on \<open>"a12 3_"\<close>: a space goes between \<open>a\<close> and \<open>12\<close>, the run \<open>12\<close> is
  replaced, and \<open>3\<close> stays because the word character \<open>_\<close> follows it.
\<close>

theorem convert_numbers_to_arabic_text_spec_witness:
  "unicode_classes example_lib
   \<and> convert_numbers_to_arabic_text example_lib [97, 49, 50, 32, 51, 95]
       = Inr [97, 32, 1000, 32, 51, 95]"
proof -
  have u: "unicode_classes example_lib"
    by (auto simp: unicode_classes_def example_lib_def latin_letter_def SPACE_def)
  have "spec_convert example_lib [97, 49, 50, 32, 51, 95] = Inr [97, 32, 1000, 32, 51, 95]"
    by (simp add: spec_convert_def example_lib_def latin_letter_def SPACE_def char_at_def
          py_int_def num2words_def max_str_digits_def MAXVAL_def)
  with convert_numbers_to_arabic_text_spec [OF u, of "[97, 49, 50, 32, 51, 95]"] u
  show ?thesis by simp
qed

text \<open>
  The text \<open>"x 1000...0 y"\<close> with 51 zeros holds the number \<open>10 ** 51\<close> between two spaces.
  \<open>num2words\<close> raises \<open>OverflowError\<close> on it, and so does the function: no text is
  returned.  On these ASCII characters the example classes are the Unicode ones.
\<close>

theorem number_too_big_counterexample:
  "convert_numbers_to_arabic_text example_lib
     [120, 32, 49, 48, 48, 48, 48, 48, 48, 48, 48, 48, 48, 48, 48, 48, 48, 48, 48, 48, 48,
      48, 48, 48, 48, 48, 48, 48, 48, 48, 48, 48, 48, 48, 48, 48, 48, 48, 48, 48, 48, 48,
      48, 48, 48, 48, 48, 48, 48, 48, 48, 48, 48, 48, 32, 121]
   = Inl OverflowError"
proof -
  have u: "unicode_classes example_lib"
    by (auto simp: unicode_classes_def example_lib_def latin_letter_def SPACE_def)
  have n: "py_int example_lib
     [49, 48, 48, 48, 48, 48, 48, 48, 48, 48, 48, 48, 48, 48, 48, 48, 48, 48, 48, 48, 48,
      48, 48, 48, 48, 48, 48, 48, 48, 48, 48, 48, 48, 48, 48, 48, 48, 48, 48, 48, 48, 48,
      48, 48, 48, 48, 48, 48, 48, 48, 48, 48]
     = Inr (10 ^ 51)"
    by (simp add: py_int_def example_lib_def max_str_digits_def)
  have "spec_convert example_lib
     [120, 32, 49, 48, 48, 48, 48, 48, 48, 48, 48, 48, 48, 48, 48, 48, 48, 48, 48, 48, 48,
      48, 48, 48, 48, 48, 48, 48, 48, 48, 48, 48, 48, 48, 48, 48, 48, 48, 48, 48, 48, 48,
      48, 48, 48, 48, 48, 48, 48, 48, 48, 48, 48, 48, 32, 121]
    = Inl OverflowError"
    unfolding spec_convert_def
    by (simp add: example_lib_def latin_letter_def SPACE_def char_at_def
          n [unfolded example_lib_def] num2words_def MAXVAL_def)
  with convert_numbers_spec_convert [OF u] show ?thesis by simp
qed

section \<open>Properties of \<open>infer\<close>\<close>

lemma suffix_after_space:
  "suffix [DOT, SPACE] ([SPACE] @ g) \<longleftrightarrow> suffix [DOT, SPACE] g"
  by (simp add: suffix_Cons DOT_def SPACE_def)

lemma prepare_gen_text_normalized: "prepare_gen_text L g = normalized_gen_text L g"
  unfolding prepare_gen_text_def normalized_gen_text_def Let_def
  using suffix_after_space [of g] by simp

lemma prepare_gen_text_errors:
  "prepare_gen_text L g = Inl e \<Longrightarrow> e = ValueError \<or> e = OverflowError"
  unfolding prepare_gen_text_def Let_def by (rule convert_numbers_errors)

lemma infer_raises:
  "prepare_gen_text L g = Inl e \<Longrightarrow> infer T L fs a r g m rs cf sp = Inl e"
  by (simp add: infer_def split: prod.splits)

lemma infer_outputs:
  assumes "preprocess_ref_audio_text T a r = (ref_audio, ref_text)"
    and "prepare_gen_text L g = Inr text"
    and "infer_process T ref_audio ref_text text cf sp = (wave, rate, spectrogram)"
  shows "infer T L fs a r g m rs cf sp =
    Inr (((rate, fst (remove_silence_step T fs wave rate rs)),
          next_tmp (snd (remove_silence_step T fs wave rate rs))),
         (snd (remove_silence_step T fs wave rate rs))
           \<lparr>files := (files (snd (remove_silence_step T fs wave rate rs)))
                      (next_tmp (snd (remove_silence_step T fs wave rate rs))
                         \<mapsto> save_spectrogram T spectrogram),
            next_tmp := Suc (next_tmp (snd (remove_silence_step T fs wave rate rs)))\<rparr>)"
  using assms
  by (simp add: infer_def Let_def NamedTemporaryFile_def write_file_def split: prod.splits)

lemma remove_silence_step_wave:
  "fst (remove_silence_step T fs wave rate rs) =
     (if truthy rs
      then fst (torchaudio_load T (remove_silence_for_generated_wav T (sf_write T wave rate)))
      else wave)"
  by (simp add: remove_silence_step_def Let_def NamedTemporaryFile_def split: prod.splits)

text \<open>
  Claim C5.  When the number conversion raises, so does \<open>infer\<close>.  Otherwise let \<open>wave\<close>,
  \<open>rate\<close> and \<open>spectrogram\<close> be what \<open>infer_process\<close> returns on the prepared text; none of
  them depends on the flag.  Then \<open>infer\<close> returns: when \<open>remove_silence\<close> is true the
  waveform it returns is the one read back after silence removal, when it is false it is
  \<open>wave\<close> itself; whatever the flag, the sample rate returned is \<open>rate\<close> and the file at
  the returned path holds the saved \<open>spectrogram\<close>.
\<close>

theorem infer_remove_silence:
  "(case prepare_gen_text L g of
      Inl e \<Rightarrow> infer T L fs a r g m rs cf sp = Inl e
    | Inr text \<Rightarrow>
        (let (ref_audio, ref_text) = preprocess_ref_audio_text T a r;
             (wave, rate, spectrogram) = infer_process T ref_audio ref_text text cf sp
         in \<exists>out. infer T L fs a r g m rs cf sp = Inr out
              \<and> (truthy rs \<longrightarrow>
                   snd (fst (fst out))
                   = fst (torchaudio_load T
                            (remove_silence_for_generated_wav T (sf_write T wave rate))))
              \<and> (\<not> truthy rs \<longrightarrow> snd (fst (fst out)) = wave)
              \<and> fst (fst (fst out)) = rate
              \<and> files (snd out) (snd (fst out)) = Some (save_spectrogram T spectrogram)))"
proof (cases "prepare_gen_text L g")
  case (Inl e)
  then show ?thesis by (simp add: infer_raises)
next
  case (Inr prepared)
  obtain ref_audio ref_text where p: "preprocess_ref_audio_text T a r = (ref_audio, ref_text)"
    by (cases "preprocess_ref_audio_text T a r")
  obtain wave rate spectrogram
    where i: "infer_process T ref_audio ref_text prepared cf sp = (wave, rate, spectrogram)"
    by (cases "infer_process T ref_audio ref_text prepared cf sp")
  show ?thesis
    unfolding Inr sum.case p i Let_def prod.case infer_outputs [OF p Inr i]
    by (simp add: remove_silence_step_wave)
qed

text \<open>
  Claim C7.  The text \<open>infer\<close> prepares is the normal form of \<open>gen_text\<close>.  When the number
  conversion raises on it, so does \<open>infer\<close>; otherwise \<open>infer\<close> returns, and what it
  returns is computed from the result of \<open>infer_process\<close> on exactly that text.
\<close>

theorem infer_normalizes_gen_text:
  "prepare_gen_text L g = normalized_gen_text L g
   \<and> (case normalized_gen_text L g of
        Inl e \<Rightarrow> infer T L fs a r g m rs cf sp = Inl e
      | Inr text \<Rightarrow>
          (let (ref_audio, ref_text) = preprocess_ref_audio_text T a r;
               (wave, rate, spectrogram) = infer_process T ref_audio ref_text text cf sp
           in \<exists>out. infer T L fs a r g m rs cf sp = Inr out
                \<and> fst (fst (fst out)) = rate
                \<and> snd (fst (fst out))
                  = (if truthy rs
                     then fst (torchaudio_load T
                                 (remove_silence_for_generated_wav T (sf_write T wave rate)))
                     else wave)
                \<and> files (snd out) (snd (fst out)) = Some (save_spectrogram T spectrogram)))"
proof (cases "prepare_gen_text L g")
  case (Inl e)
  then have "normalized_gen_text L g = Inl e" by (simp add: prepare_gen_text_normalized)
  with Inl show ?thesis by (simp add: infer_raises prepare_gen_text_normalized)
next
  case (Inr prepared)
  then have n: "normalized_gen_text L g = Inr prepared" by (simp add: prepare_gen_text_normalized)
  obtain ref_audio ref_text where p: "preprocess_ref_audio_text T a r = (ref_audio, ref_text)"
    by (cases "preprocess_ref_audio_text T a r")
  obtain wave rate spectrogram
    where i: "infer_process T ref_audio ref_text prepared cf sp = (wave, rate, spectrogram)"
    by (cases "infer_process T ref_audio ref_text prepared cf sp")
  have "prepare_gen_text L g = normalized_gen_text L g" by (rule prepare_gen_text_normalized)
  then show ?thesis
    unfolding n sum.case p i Let_def prod.case infer_outputs [OF p Inr i]
    by (simp add: remove_silence_step_wave)
qed

lemma prepare_example:
  "prepare_gen_text example_lib [104, 105] = Inr [32, 104, 105, 46, 32]"
  by (simp add: prepare_gen_text_def convert_numbers_to_arabic_text_def example_lib_def
        SPACE_def DOT_def latin_letter_def match_number_def char_at_def word_boundary_def
        Let_def suffix_Cons)

lemma example_tts_fields:
  "preprocess_ref_audio_text example_tts a r
   = (case a of PStr s \<Rightarrow> s | _ \<Rightarrow> [], case r of PStr s \<Rightarrow> s | _ \<Rightarrow> [])"
  "infer_process example_tts ref_audio ref_text gen_text cf sp
   = (ref_audio @ ref_text @ gen_text, 24000, length gen_text)"
  "sf_write example_tts wave rate = wave"
  "remove_silence_for_generated_wav example_tts f = filter (\<lambda>x. x \<noteq> 32) f"
  "torchaudio_load example_tts f = (f, 24000)"
  "save_spectrogram example_tts g = [g]"
  by (simp_all add: example_tts_def)

text \<open>The theorem on the text \<open>"hi"\<close>, once with the flag set and once without.\<close>

theorem infer_remove_silence_witness:
  "truthy (PBool True) \<and> \<not> truthy (PBool False)
   \<and> (\<exists>out. infer example_tts example_lib empty_fstore PNone PNone [104, 105] PNone
               (PBool True) 0 1 = Inr out
            \<and> snd (fst (fst out)) = [104, 105, 46])
   \<and> (\<exists>out. infer example_tts example_lib empty_fstore PNone PNone [104, 105] PNone
               (PBool False) 0 1 = Inr out
            \<and> snd (fst (fst out)) = [32, 104, 105, 46, 32])"
proof -
  from infer_remove_silence [where L = example_lib and g = "[104, 105]" and T = example_tts
      and fs = empty_fstore and a = PNone and r = PNone and m = PNone and rs = "PBool True"
      and cf = 0 and sp = 1]
  have t: "\<exists>out. infer example_tts example_lib empty_fstore PNone PNone [104, 105] PNone
               (PBool True) 0 1 = Inr out
            \<and> snd (fst (fst out)) = [104, 105, 46]"
    by (auto simp: prepare_example example_tts_fields Let_def)
  from infer_remove_silence [where L = example_lib and g = "[104, 105]" and T = example_tts
      and fs = empty_fstore and a = PNone and r = PNone and m = PNone and rs = "PBool False"
      and cf = 0 and sp = 1]
  have f: "\<exists>out. infer example_tts example_lib empty_fstore PNone PNone [104, 105] PNone
               (PBool False) 0 1 = Inr out
            \<and> snd (fst (fst out)) = [32, 104, 105, 46, 32]"
    by (auto simp: prepare_example example_tts_fields Let_def)
  from t f show ?thesis by simp
qed

text \<open>The theorem on the text \<open>"hi"\<close>.\<close>

theorem infer_normalizes_gen_text_witness:
  "normalized_gen_text example_lib [104, 105] = Inr [32, 104, 105, 46, 32]
   \<and> (\<exists>out. infer example_tts example_lib empty_fstore PNone PNone [104, 105] PNone
               (PBool False) 0 1 = Inr out
            \<and> fst (fst (fst out)) = 24000
            \<and> snd (fst (fst out)) = [32, 104, 105, 46, 32])"
proof -
  have n: "normalized_gen_text example_lib [104, 105] = Inr [32, 104, 105, 46, 32]"
    using prepare_example by (simp add: prepare_gen_text_normalized)
  from infer_normalizes_gen_text [where L = example_lib and g = "[104, 105]"
      and T = example_tts and fs = empty_fstore and a = PNone and r = PNone and m = PNone
      and rs = "PBool False" and cf = 0 and sp = 1]
  have "\<exists>out. infer example_tts example_lib empty_fstore PNone PNone [104, 105] PNone
               (PBool False) 0 1 = Inr out
            \<and> fst (fst (fst out)) = 24000
            \<and> snd (fst (fst out)) = [32, 104, 105, 46, 32]"
    by (auto simp: n example_tts_fields Let_def)
  with n show ?thesis by simp
qed

section \<open>Properties of the style-marker parser\<close>

lemma match_group_name:
  "marker_name m \<Longrightarrow> match_group (m @ RBRACE # rest) = Some (m, rest)"
  by (induction m) (auto simp: marker_name_def)

lemma match_group_Some:
  "match_group cs = Some (g, rest) \<Longrightarrow> cs = g @ RBRACE # rest \<and> marker_name g"
  by (induction cs arbitrary: g rest)
     (auto simp: marker_name_def split: if_splits option.splits)

lemma match_group_None_iff:
  "match_group cs = None \<longleftrightarrow>
     (case dropWhile (\<lambda>x. x \<noteq> RBRACE \<and> x \<noteq> NEWLINE) cs of [] \<Rightarrow> True | d # _ \<Rightarrow> d \<noteq> RBRACE)"
proof (induction cs)
  case Nil
  show ?case by simp
next
  case (Cons c cs)
  show ?case
  proof (cases "c = RBRACE \<or> c = NEWLINE")
    case True
    then show ?thesis by (auto simp: RBRACE_def NEWLINE_def)
  next
    case False
    with Cons show ?thesis by (cases "match_group cs") auto
  qed
qed

lemma starts_marker_iff: "starts_marker s \<longleftrightarrow> match_marker s \<noteq> None"
proof (cases s)
  case Nil
  then show ?thesis by (simp add: match_marker_def)
next
  case (Cons c cs)
  let ?d = "dropWhile (\<lambda>x. x \<noteq> RBRACE \<and> x \<noteq> NEWLINE) cs"
  have "(case xs of [] \<Rightarrow> False | d # _ \<Rightarrow> d = RBRACE)
        \<longleftrightarrow> \<not> (case xs of [] \<Rightarrow> True | d # _ \<Rightarrow> d \<noteq> RBRACE)" for xs :: ustring
    by (cases xs) simp_all
  then have "(case ?d of [] \<Rightarrow> False | d # _ \<Rightarrow> d = RBRACE) \<longleftrightarrow> match_group cs \<noteq> None"
    using match_group_None_iff [of cs] by simp
  with Cons show ?thesis by (simp add: match_marker_def)
qed

lemma no_marker_None: "\<not> starts_marker s \<Longrightarrow> match_marker s = None"
  using starts_marker_iff [of s] by blast

lemma re_split_last_chunk:
  "(\<forall>k \<le> length t. \<not> starts_marker (drop k t)) \<Longrightarrow> re_split t = [t]"
proof (induction t)
  case Nil
  then show ?case by simp
next
  case (Cons c t)
  from Cons.prems have "\<not> starts_marker (drop 0 (c # t))" by blast
  then have none: "match_marker (c # t) = None"
    by (simp add: no_marker_None)
  have "\<forall>k \<le> length t. \<not> starts_marker (drop k t)"
  proof (intro allI impI)
    fix k assume "k \<le> length t"
    then have "Suc k \<le> length (c # t)" by simp
    with Cons.prems have "\<not> starts_marker (drop (Suc k) (c # t))" by blast
    then show "\<not> starts_marker (drop k t)" by simp
  qed
  then have "re_split t = [t]" by (rule Cons.IH)
  with none show ?case by simp
qed

lemma re_split_chunk_marker:
  assumes "marker_name m"
    and "\<forall>k < length t. \<not> starts_marker (drop k (t @ LBRACE # m @ RBRACE # rest))"
  shows "re_split (t @ LBRACE # m @ RBRACE # rest) = t # m # re_split rest"
  using assms(2)
proof (induction t)
  case Nil
  have "match_marker (LBRACE # m @ RBRACE # rest) = Some (m, rest)"
    using match_group_name [OF assms(1)] by (simp add: match_marker_def)
  then show ?case by simp
next
  case (Cons c t)
  let ?s = "t @ LBRACE # m @ RBRACE # rest"
  have "0 < length (c # t)" by simp
  with Cons.prems have "\<not> starts_marker (drop 0 ((c # t) @ LBRACE # m @ RBRACE # rest))"
    by blast
  then have none: "match_marker (c # ?s) = None"
    by (simp add: no_marker_None)
  have "\<forall>k < length t. \<not> starts_marker (drop k ?s)"
  proof (intro allI impI)
    fix k assume "k < length t"
    then have "Suc k < length (c # t)" by simp
    with Cons.prems have "\<not> starts_marker (drop (Suc k) ((c # t) @ LBRACE # m @ RBRACE # rest))"
      by blast
    then show "\<not> starts_marker (drop k ?s)" by simp
  qed
  then have "re_split ?s = t # m # re_split rest" by (rule Cons.IH)
  with none show ?case by simp
qed

lemma re_split_render:
  "leftmost_markers t ms \<Longrightarrow> re_split (render t ms) = tokens_of t ms"
proof (induction t ms rule: render.induct)
  case (1 t)
  then have "\<forall>k \<le> length t. \<not> starts_marker (drop k t)" by simp
  then show ?case using re_split_last_chunk [of t] by simp
next
  case (2 t m t' ms)
  from "2.prems" have name: "marker_name m" and rest: "leftmost_markers t' ms"
    and left: "\<forall>k < length t.
       \<not> starts_marker (drop k (t @ LBRACE # m @ RBRACE # render t' ms))"
    by simp_all
  from rest have "re_split (render t' ms) = tokens_of t' ms" by (rule "2.IH")
  with re_split_chunk_marker [OF name left] show ?case by simp
qed

lemma parse_loop_tokens:
  "even i \<Longrightarrow> parse_loop (tokens_of t ms) i st segs = segs @ labelled st t ms"
proof (induction st t ms arbitrary: i segs rule: labelled.induct)
  case (1 st t)
  then show ?case by (simp add: Let_def)
next
  case (2 st t m t' ms)
  from "2.prems" have "even (i + 1 + 1)" by simp
  then have IH: "\<And>segs. parse_loop (tokens_of t' ms) (i + 1 + 1) (strip m) segs
       = segs @ labelled (strip m) t' ms"
    by (rule "2.IH")
  from "2.prems" have odd: "(i + 1) mod 2 \<noteq> 0" and ev: "i mod 2 = 0"
    by presburger+
  show ?case using IH odd ev by (simp add: Let_def)
qed

lemma leftmost_markers_Cons:
  assumes "\<not> starts_marker (c # render t ms)" and "leftmost_markers t ms"
  shows "leftmost_markers (c # t) ms"
proof (cases ms)
  case Nil
  have "\<not> starts_marker (drop k (c # t))" if "k \<le> length (c # t)" for k
  proof (cases k)
    case 0
    with assms(1) Nil show ?thesis by simp
  next
    case (Suc j)
    with that have "j \<le> length t" by simp
    with assms(2) Nil Suc show ?thesis by simp
  qed
  with Nil show ?thesis by simp
next
  case (Cons p ms')
  obtain m t' where p: "p = (m, t')" by (cases p)
  have "\<not> starts_marker (drop k (render (c # t) ((m, t') # ms')))" if "k < length (c # t)" for k
  proof (cases k)
    case 0
    with assms(1) Cons p show ?thesis by simp
  next
    case (Suc j)
    with that have "j < length t" by simp
    with assms(2) Cons p Suc show ?thesis by simp
  qed
  with assms(2) Cons p show ?thesis by simp
qed

lemma decomposition_exists:
  "\<exists>t ms. s = render t ms \<and> leftmost_markers t ms"
proof (induction s rule: length_induct)
  case (1 s)
  show ?case
  proof (cases s)
    case Nil
    have "[] = render [] [] \<and> leftmost_markers [] []" by simp
    with Nil show ?thesis by blast
  next
    case (Cons c cs)
    show ?thesis
    proof (cases "match_marker (c # cs)")
      case None
      then have no: "\<not> starts_marker (c # cs)" by (simp add: starts_marker_iff)
      from 1 Cons obtain t ms where cs: "cs = render t ms" and lm: "leftmost_markers t ms"
        by (metis length_Cons lessI)
      from no cs have "\<not> starts_marker (c # render t ms)" by simp
      then have "leftmost_markers (c # t) ms" using lm by (rule leftmost_markers_Cons)
      moreover have "s = render (c # t) ms" using Cons cs by (cases ms) auto
      ultimately show ?thesis by blast
    next
      case (Some p)
      obtain g rest where p: "p = (g, rest)" by (cases p)
      from Some p have c: "c = LBRACE" and mg: "match_group cs = Some (g, rest)"
        by (auto simp: match_marker_def split: if_splits)
      from match_group_Some [OF mg] have cs: "cs = g @ RBRACE # rest" and name: "marker_name g"
        by simp_all
      from cs Cons have "length rest < length s" by simp
      with 1 obtain t ms where rest: "rest = render t ms" and lm: "leftmost_markers t ms"
        by blast
      have "s = render [] ((g, t) # ms)" using Cons c cs rest by simp
      moreover have "leftmost_markers [] ((g, t) # ms)" using name lm by simp
      ultimately show ?thesis by blast
    qed
  qed
qed

text \<open>
  Claim C1.  Every input text is a first chunk followed by markers and chunks, each
  marker the leftmost one after the chunk before it; and for every such reading of the
  input, \<open>parse_speechtypes_text\<close> returns, in order, one segment for each chunk that is
  not empty after stripping, whose text is the stripped chunk and whose style is the
  stripped name of the nearest preceding marker, or \<open>"Regular"\<close> before the first marker.
\<close>

theorem parse_speechtypes_text_segments:
  "(\<exists>t ms. gen_text = render t ms \<and> leftmost_markers t ms)
   \<and> (\<forall>t ms. gen_text = render t ms \<and> leftmost_markers t ms \<longrightarrow>
         parse_speechtypes_text gen_text = labelled Regular t ms)"
proof
  show "\<exists>t ms. gen_text = render t ms \<and> leftmost_markers t ms"
    by (rule decomposition_exists)
next
  show "\<forall>t ms. gen_text = render t ms \<and> leftmost_markers t ms \<longrightarrow>
         parse_speechtypes_text gen_text = labelled Regular t ms"
  proof (intro allI impI)
    fix t ms
    assume "gen_text = render t ms \<and> leftmost_markers t ms"
    then have "re_split gen_text = tokens_of t ms"
      using re_split_render [of t ms] by simp
    then show "parse_speechtypes_text gen_text = labelled Regular t ms"
      using parse_loop_tokens [of 0 t ms Regular "[]"]
      by (simp add: parse_speechtypes_text_def)
  qed
qed




theorem parse_speechtypes_text_segments_witness:
  "[97, 123, 32, 98, 125, 32, 99, 123, 125, 32] = render [97] [([32, 98], [32, 99]), ([], [32])]
   \<and> leftmost_markers [97] [([32, 98], [32, 99]), ([], [32])]
   \<and> parse_speechtypes_text [97, 123, 32, 98, 125, 32, 99, 123, 125, 32]
       = [\<lparr>style = Regular, text_of = [97]\<rparr>, \<lparr>style = [98], text_of = [99]\<rparr>]"
proof -
  have r: "[97, 123, 32, 98, 125, 32, 99, 123, 125, 32]
           = render [97] [([32, 98], [32, 99]), ([], [32])]"
    by (simp add: LBRACE_def RBRACE_def)
  have l: "leftmost_markers [97] [([32, 98], [32, 99]), ([], [32])]"
    by (simp add: LBRACE_def RBRACE_def NEWLINE_def marker_name_def lessThan_Suc atMost_Suc)
  have lab: "labelled Regular [97] [([32, 98], [32, 99]), ([], [32])]
             = [\<lparr>style = Regular, text_of = [97]\<rparr>, \<lparr>style = [98], text_of = [99]\<rparr>]"
    by (simp add: strip_def isspace_def)
  from parse_speechtypes_text_segments [of "[97, 123, 32, 98, 125, 32, 99, 123, 125, 32]"] r l
  have "parse_speechtypes_text [97, 123, 32, 98, 125, 32, 99, 123, 125, 32]
        = labelled Regular [97] [([32, 98], [32, 99]), ([], [32])]"
    by blast
  with r l lab show ?thesis by simp
qed

section \<open>Properties of the speech-type counter\<close>

text \<open>
  What the two handlers do to the counter and to the rows: the counter stays between 0 and
  99 under every sequence of clicks; an add click below the limit increments the counter
  by 1 and sets every row whose index is below the new counter visible; an add click at
  the limit changes nothing; a delete click hides its own row and decrements the counter,
  but never below 0.
\<close>

lemma length_row_range: "length row_range = 99"
  by (simp add: row_range_def max_speech_types_def)

lemma nth_row_range: "i < 99 \<Longrightarrow> row_range ! i = i"
  by (simp add: row_range_def max_speech_types_def)

lemma add_count_bounds:
  "0 \<le> c \<Longrightarrow> c \<le> 99 \<Longrightarrow>
   0 \<le> fst (add_speech_type_fn c) \<and> fst (add_speech_type_fn c) \<le> 99"
  by (simp add: add_speech_type_fn_def max_speech_types_def Let_def)

lemma delete_count_bounds:
  "0 \<le> c \<Longrightarrow> c \<le> 99 \<Longrightarrow>
   0 \<le> fst (make_delete_speech_type_fn i c) \<and> fst (make_delete_speech_type_fn i c) \<le> 99"
  by (simp add: make_delete_speech_type_fn_def Let_def)

lemma on_click_count_bounds:
  assumes "0 \<le> speech_type_count s" and "speech_type_count s \<le> 99"
  shows "0 \<le> speech_type_count (on_click s e) \<and> speech_type_count (on_click s e) \<le> 99"
proof (cases e)
  case Add_click
  with assms add_count_bounds [of "speech_type_count s"] show ?thesis
    by (simp add: apply_outputs_def)
next
  case (Delete_click i)
  with assms delete_count_bounds [of "speech_type_count s" i] show ?thesis
    by (simp add: apply_outputs_def)
qed

lemma foldl_count_bounds:
  "0 \<le> speech_type_count s \<Longrightarrow> speech_type_count s \<le> 99 \<Longrightarrow>
   0 \<le> speech_type_count (foldl on_click s cs) \<and> speech_type_count (foldl on_click s cs) \<le> 99"
proof (induction cs arbitrary: s)
  case Nil
  then show ?case by simp
next
  case (Cons e cs)
  from Cons.prems on_click_count_bounds [of s e]
  have "0 \<le> speech_type_count (on_click s e)" and "speech_type_count (on_click s e) \<le> 99"
    by simp_all
  then show ?case using Cons.IH [of "on_click s e"] by simp
qed

lemma run_clicks_count_bounds:
  "0 \<le> speech_type_count (run_clicks cs) \<and> speech_type_count (run_clicks cs) \<le> 99"
  unfolding run_clicks_def
  by (rule foldl_count_bounds) (simp_all add: init_ui_def)

lemma on_click_rows_length:
  "length (speech_type_rows s) = 99 \<Longrightarrow> length (speech_type_rows (on_click s e)) = 99"
  by (cases e)
     (simp_all add: apply_outputs_def add_speech_type_fn_def make_delete_speech_type_fn_def
        Let_def length_row_range)

lemma add_below_limit:
  assumes "length (speech_type_rows s) = 99" and "speech_type_count s < 99"
  shows "speech_type_count (on_click s Add_click) = speech_type_count s + 1"
    and "i < 99 \<Longrightarrow> speech_type_rows (on_click s Add_click) ! i
           = (int i < speech_type_count s + 1 \<or> speech_type_rows s ! i)"
  using assms
  by (simp_all add: apply_outputs_def add_speech_type_fn_def max_speech_types_def Let_def
        length_row_range nth_row_range)

lemma add_at_limit:
  assumes "length (speech_type_rows s) = 99" and "99 \<le> speech_type_count s"
  shows "on_click s Add_click = s"
proof -
  have "map (\<lambda>(u, v). apply_update u v) (zip (map (\<lambda>_. no_update) row_range) (speech_type_rows s))
        = speech_type_rows s"
    using assms(1) by (intro nth_equalityI) (simp_all add: length_row_range)
  with assms(2) show ?thesis
    by (simp add: apply_outputs_def add_speech_type_fn_def max_speech_types_def)
qed

lemma delete_effect:
  assumes "length (speech_type_rows s) = 99" and "i < 99"
  shows "on_click s (Delete_click i)
         = \<lparr>speech_type_count = max 0 (speech_type_count s - 1),
            speech_type_rows = (speech_type_rows s)[i := False]\<rparr>"
proof -
  have "map (\<lambda>(u, v). apply_update u v)
          (zip (map (\<lambda>j. if j = i then set_visible False else no_update) row_range)
               (speech_type_rows s))
        = (speech_type_rows s)[i := False]"
    using assms(1)
    by (intro nth_equalityI) (simp_all add: length_row_range nth_row_range nth_list_update)
  with assms(2) show ?thesis
    by (simp add: apply_outputs_def make_delete_speech_type_fn_def max_speech_types_def Let_def)
qed

text \<open>
  Claim C9.  The claim has an add click below the limit increment the counter by 1 and
  make one more row visible.  The counter is meant to be the number of speech types
  (``Keep track of current number of speech types'', ``Function to add a speech type''),
  and the add handler shows the rows whose index is below the new counter.  After a row
  other than the last visible one has been deleted this goes wrong.  Three add clicks show
  rows 0, 1 and 2; deleting rows 0 and 1 leaves the counter at 1 with row 2 visible.  One
  more add click then shows rows 0 and 1, two rows rather than one, and leaves the counter
  at 2 with three rows visible; the add click after that raises the counter to 3 and shows
  no row at all.
\<close>

theorem add_click_after_delete:
  "speech_type_count
     (run_clicks [Add_click, Add_click, Add_click, Delete_click 0, Delete_click 1]) = 1
   \<and> speech_type_rows
       (run_clicks [Add_click, Add_click, Add_click, Delete_click 0, Delete_click 1])
     = [False, False, True] @ replicate 96 False
   \<and> speech_type_count
       (run_clicks [Add_click, Add_click, Add_click, Delete_click 0, Delete_click 1,
                    Add_click]) = 2
   \<and> speech_type_rows
       (run_clicks [Add_click, Add_click, Add_click, Delete_click 0, Delete_click 1,
                    Add_click])
     = [True, True, True] @ replicate 96 False
   \<and> visible_rows
       (run_clicks [Add_click, Add_click, Add_click, Delete_click 0, Delete_click 1,
                    Add_click]) = 3
   \<and> speech_type_count
       (run_clicks [Add_click, Add_click, Add_click, Delete_click 0, Delete_click 1,
                    Add_click, Add_click]) = 3
   \<and> speech_type_rows
       (run_clicks [Add_click, Add_click, Add_click, Delete_click 0, Delete_click 1,
                    Add_click, Add_click])
     = [True, True, True] @ replicate 96 False"
  by code_simp

section \<open>Properties of the multi-style generation\<close>

lemma infer_Inl:
  "infer T L fs a r g m rs cf sp = Inl e \<Longrightarrow> prepare_gen_text L g = Inl e"
  by (cases "prepare_gen_text L g")
     (auto simp: infer_def Let_def split: prod.splits)

lemma infer_audio_any_store:
  "(case infer T L fs a r g m rs cf sp of Inl e \<Rightarrow> Inl e | Inr out \<Rightarrow> Inr (fst (fst out)))
   = (case infer T L fs' a r g m rs cf sp of Inl e \<Rightarrow> Inl e | Inr out \<Rightarrow> Inr (fst (fst out)))"
proof (cases "prepare_gen_text L g")
  case (Inl e)
  then show ?thesis by (simp add: infer_raises)
next
  case (Inr prepared)
  obtain ref_audio ref_text where p: "preprocess_ref_audio_text T a r = (ref_audio, ref_text)"
    by (cases "preprocess_ref_audio_text T a r")
  obtain wave rate spectrogram
    where i: "infer_process T ref_audio ref_text prepared cf sp = (wave, rate, spectrogram)"
    by (cases "infer_process T ref_audio ref_text prepared cf sp")
  show ?thesis
    unfolding infer_outputs [OF p Inr i] by (simp add: remove_silence_step_wave)
qed

lemma clip_of_infer_Inl:
  assumes "infer T L fs (st_audio entry) (st_ref_text entry) t m rs 0 1 = Inl e"
  shows "clip T L entry m rs t = Inl e"
  using assms
    infer_audio_any_store [of T L fs "st_audio entry" "st_ref_text entry" t m rs 0 1
      empty_fstore]
  by (simp add: clip_def split: sum.splits)

lemma clip_of_infer_Inr:
  assumes "infer T L fs (st_audio entry) (st_ref_text entry) t m rs 0 1
           = Inr (((rate, wave), path), fs1)"
  shows "clip T L entry m rs t = Inr (rate, wave)"
  using assms
    infer_audio_any_store [of T L fs "st_audio entry" "st_ref_text entry" t m rs 0 1
      empty_fstore]
  by (simp add: clip_def split: sum.splits)

lemma clip_errors:
  "clip T L entry m rs text = Inl e \<Longrightarrow> e = ValueError \<or> e = OverflowError"
proof -
  assume "clip T L entry m rs text = Inl e"
  then have "infer T L empty_fstore (st_audio entry) (st_ref_text entry) text m rs 0 1 = Inl e"
    by (simp add: clip_def split: sum.splits)
  then have "prepare_gen_text L text = Inl e" by (rule infer_Inl)
  then show ?thesis by (rule prepare_gen_text_errors)
qed

lemma clips_of_length: "clips_of f segments = Inr cs \<Longrightarrow> length cs = length segments"
  by (induction segments arbitrary: cs) (auto split: sum.splits)

lemma clips_of_nth:
  "clips_of f segments = Inr cs \<Longrightarrow> j < length segments \<Longrightarrow> f (segments ! j) = Inr (cs ! j)"
proof (induction segments arbitrary: cs j)
  case Nil
  then show ?case by simp
next
  case (Cons seg segments)
  from Cons.prems(1) obtain c cs' where c: "f seg = Inr c"
    and rest: "clips_of f segments = Inr cs'" and cs: "cs = c # cs'"
    by (auto split: sum.splits)
  show ?case
  proof (cases j)
    case 0
    with c cs show ?thesis by simp
  next
    case (Suc k)
    with Cons.prems(2) have "k < length segments" by simp
    with rest have "f (segments ! k) = Inr (cs' ! k)" by (rule Cons.IH)
    with Suc cs show ?thesis by simp
  qed
qed

lemma clips_of_Inl:
  "clips_of f segments = Inl e \<Longrightarrow> \<exists>j < length segments. f (segments ! j) = Inl e"
proof (induction segments)
  case Nil
  then show ?case by simp
next
  case (Cons seg segments)
  show ?case
  proof (cases "f seg")
    case (Inl e')
    with Cons.prems have "f ((seg # segments) ! 0) = Inl e" by simp
    then show ?thesis by blast
  next
    case (Inr c)
    with Cons.prems have "clips_of f segments = Inl e" by (auto split: sum.splits)
    then obtain j where "j < length segments" and "f (segments ! j) = Inl e"
      using Cons.IH by blast
    then have "Suc j < length (seg # segments)" and "f ((seg # segments) ! Suc j) = Inl e"
      by simp_all
    then show ?thesis by blast
  qed
qed

lemma fold_speech_types:
  "fold (\<lambda>(name_input, audio_input, ref_text_input) speech_types.
           if truthy name_input \<and> truthy audio_input
           then speech_types(name_input \<mapsto>
                  \<lparr>st_audio = audio_input, st_ref_text = ref_text_input\<rparr>)
           else speech_types) xs m name
   = (case filter (\<lambda>(n, a, r). n = name \<and> truthy n \<and> truthy a) xs of
        [] \<Rightarrow> m name
      | t # ts \<Rightarrow> Some \<lparr>st_audio = fst (snd (last (t # ts))),
                        st_ref_text = snd (snd (last (t # ts)))\<rparr>)"
proof (induction xs rule: rev_induct)
  case Nil
  show ?case by simp
next
  case (snoc x xs)
  obtain n a r where x: "x = (n, a, r)" by (cases x)
  show ?case
  proof (cases "n = name \<and> truthy n \<and> truthy a")
    case True
    then have n: "n = name" and tn: "truthy name" and ta: "truthy a" by auto
    show ?thesis
      unfolding x n
      by (cases "filter (\<lambda>(n, a, r). n = name \<and> truthy n \<and> truthy a) xs")
         (simp_all add: tn ta)
  next
    case False
    then show ?thesis using snoc
      by (auto simp: x split: list.splits)
  qed
qed

lemma slices_triples:
  assumes "3 * 99 + 1 < length args"
  shows "zip (take 99 args) (zip (take 99 (drop 99 args)) (take 99 (drop 198 args)))
         = speech_type_triples args"
  using assms
  by (intro nth_equalityI) (simp_all add: speech_type_triples_def add.commute)

lemma speech_types_of_configured:
  assumes "3 * 99 + 1 < length args"
  shows "speech_types_of regular_audio regular_ref_text args
         = configured regular_audio regular_ref_text args"
proof
  fix name
  show "speech_types_of regular_audio regular_ref_text args name
        = configured regular_audio regular_ref_text args name"
    unfolding speech_types_of_def collect_speech_types_def fold_speech_types
      slices_triples [OF assms] configured_def
    by (simp split: list.splits)
qed

lemma collect_has_Regular:
  "\<exists>regular. collect_speech_types ra rr names audios refs (PStr Regular) = Some regular"
  unfolding collect_speech_types_def fold_speech_types
  by (simp split: list.splits)

lemma synth_segments_step_Inl:
  assumes "speech_types (PStr Regular) = Some regular"
    and "infer T L fs (st_audio (selected speech_types regular seg))
           (st_ref_text (selected speech_types regular seg)) (text_of seg) model rs 0 1
         = Inl e"
  shows "synth_segments T L speech_types model rs (seg # segments) (generated, sr, fs) = Inl e"
proof -
  have "speech_types
       (PStr (if speech_types (PStr (style seg)) \<noteq> None then style seg else Regular))
       = Some (selected speech_types regular seg)"
    using assms(1) by (auto simp: selected_def)
  with assms(2) show ?thesis by (simp add: Let_def)
qed

lemma synth_segments_step:
  assumes "speech_types (PStr Regular) = Some regular"
    and "infer T L fs (st_audio (selected speech_types regular seg))
           (st_ref_text (selected speech_types regular seg)) (text_of seg) model rs 0 1
         = Inr (((rate, wave), path), fs1)"
  shows "synth_segments T L speech_types model rs (seg # segments) (generated, sr, fs)
         = synth_segments T L speech_types model rs segments
             (generated @ [wave], Some rate, fs1)"
proof -
  have "speech_types
       (PStr (if speech_types (PStr (style seg)) \<noteq> None then style seg else Regular))
       = Some (selected speech_types regular seg)"
    using assms(1) by (auto simp: selected_def)
  with assms(2) show ?thesis by (simp add: Let_def)
qed

lemma synth_segments_clips:
  assumes "speech_types (PStr Regular) = Some regular"
  shows "\<exists>fs'. synth_segments T L speech_types model rs segments (generated, sr, fs)
     = (case clips_of (\<lambda>seg. clip T L (selected speech_types regular seg) model rs (text_of seg))
               segments of
          Inl e \<Rightarrow> Inl e
        | Inr cs \<Rightarrow>
            Inr (generated @ map snd cs, (if cs = [] then sr else Some (fst (last cs))), fs'))"
proof (induction segments arbitrary: generated sr fs)
  case Nil
  show ?case by simp
next
  case (Cons seg segments)
  let ?e = "selected speech_types regular seg"
  let ?f = "\<lambda>seg. clip T L (selected speech_types regular seg) model rs (text_of seg)"
  show ?case
  proof (cases "infer T L fs (st_audio ?e) (st_ref_text ?e) (text_of seg) model rs 0 1")
    case (Inl e)
    then have "?f seg = Inl e" by (rule clip_of_infer_Inl)
    with synth_segments_step_Inl [OF assms Inl] show ?thesis by simp
  next
    case (Inr out)
    obtain rate wave path fs1 where out: "out = (((rate, wave), path), fs1)"
      by (metis prod.exhaust)
    note inf = Inr [unfolded out]
    have c: "?f seg = Inr (rate, wave)" using inf by (rule clip_of_infer_Inr)
    obtain fs' where rest:
      "synth_segments T L speech_types model rs segments (generated @ [wave], Some rate, fs1)
       = (case clips_of ?f segments of
            Inl e \<Rightarrow> Inl e
          | Inr cs \<Rightarrow>
              Inr ((generated @ [wave]) @ map snd cs,
                   (if cs = [] then Some rate else Some (fst (last cs))), fs'))"
      using Cons.IH by blast
    have "synth_segments T L speech_types model rs (seg # segments) (generated, sr, fs)
       = (case clips_of ?f (seg # segments) of
            Inl e \<Rightarrow> Inl e
          | Inr cs \<Rightarrow>
              Inr (generated @ map snd cs, (if cs = [] then sr else Some (fst (last cs))), fs'))"
      unfolding synth_segments_step [OF assms inf] rest
      by (simp add: c split: sum.splits)
    then show ?thesis by blast
  qed
qed

lemma generate_multistyle_speech_eq:
  assumes "3 * 99 + 1 < length args"
  shows "\<exists>regular fs'.
     speech_types_of regular_audio regular_ref_text args (PStr Regular) = Some regular
     \<and> generate_multistyle_speech T L fs regular_audio regular_ref_text gen_text args
       = (case clips_of
                 (\<lambda>seg. clip T L
                          (selected (speech_types_of regular_audio regular_ref_text args)
                             regular seg)
                          (args ! 297) (args ! 298) (text_of seg))
                 (parse_speechtypes_text gen_text) of
            Inl e \<Rightarrow> Inl e
          | Inr clips \<Rightarrow>
              Inr (if parse_speechtypes_text gen_text = [] then (None, [no_audio_warning], fs')
                   else (Some (fst (last clips), concat (map snd clips)), [], fs')))"
proof -
  let ?st = "speech_types_of regular_audio regular_ref_text args"
  let ?segs = "parse_speechtypes_text gen_text"
  obtain regular where reg: "?st (PStr Regular) = Some regular"
    unfolding speech_types_of_def using collect_has_Regular by blast
  let ?f = "\<lambda>seg. clip T L (selected ?st regular seg) (args ! 297) (args ! 298) (text_of seg)"
  obtain fs' where loop:
    "synth_segments T L ?st (args ! 297) (args ! 298) ?segs ([], None, fs)
     = (case clips_of ?f ?segs of
          Inl e \<Rightarrow> Inl e
        | Inr cs \<Rightarrow> Inr ([] @ map snd cs, (if cs = [] then None else Some (fst (last cs))), fs'))"
    using synth_segments_clips [of ?st regular, OF reg] by blast
  have "generate_multistyle_speech T L fs regular_audio regular_ref_text gen_text args
       = (case clips_of ?f ?segs of
            Inl e \<Rightarrow> Inl e
          | Inr clips \<Rightarrow>
              Inr (if ?segs = [] then (None, [no_audio_warning], fs')
                   else (Some (fst (last clips), concat (map snd clips)), [], fs')))"
  proof (cases "clips_of ?f ?segs")
    case (Inl e)
    with assms loop show ?thesis
      by (simp add: generate_multistyle_speech_def max_speech_types_def speech_types_of_def
            Let_def)
  next
    case (Inr cs)
    from Inr have len: "length cs = length ?segs" by (rule clips_of_length)
    show ?thesis
    proof (cases "?segs = []")
      case True
      with len have "cs = []" by simp
      with assms loop Inr True show ?thesis
        by (simp add: generate_multistyle_speech_def max_speech_types_def speech_types_of_def
              Let_def)
    next
      case False
      with len have "cs \<noteq> []" by auto
      with assms loop Inr False show ?thesis
        by (simp add: generate_multistyle_speech_def max_speech_types_def speech_types_of_def
              Let_def)
    qed
  qed
  with reg show ?thesis by blast
qed

text \<open>
  Claim C4.  With the two trailing arguments present, a speech type is configured under
  \<open>"Regular"\<close>, and \<open>generate_multistyle_speech\<close> does the following: for each segment of
  the parsed text, in order, it takes the speech type configured under the segment's style
  (the one under \<open>"Regular"\<close> when there is none) and synthesizes the segment's text with
  \<open>infer\<close> from that speech type's audio and reference text.  When \<open>infer\<close> raises on a
  segment, the first such exception leaves the function.  Otherwise the function returns
  the waveforms concatenated in segment order, with the sample rate of the last one; when
  there is no segment it returns \<open>None\<close> and issues one warning.
\<close>

theorem generate_multistyle_speech_concatenates:
  assumes "3 * 99 + 1 < length args"
  shows "\<exists>regular fs'.
     configured regular_audio regular_ref_text args (PStr Regular) = Some regular
     \<and> generate_multistyle_speech T L fs regular_audio regular_ref_text gen_text args
       = (case clips_of
                 (\<lambda>seg. clip T L
                          (selected (configured regular_audio regular_ref_text args)
                             regular seg)
                          (args ! 297) (args ! 298) (text_of seg))
                 (parse_speechtypes_text gen_text) of
            Inl e \<Rightarrow> Inl e
          | Inr clips \<Rightarrow>
              Inr (if parse_speechtypes_text gen_text = [] then (None, [no_audio_warning], fs')
                   else (Some (fst (last clips), concat (map snd clips)), [], fs')))"
  using generate_multistyle_speech_eq [OF assms, of regular_audio regular_ref_text T L fs gen_text]
  unfolding speech_types_of_configured [OF assms] .

text \<open>
  Claim C3.  When the style of the \<open>i\<close>-th parsed segment is not a key of the dictionary,
  the entry \<open>"Regular"\<close> is there, and the only exception \<open>generate_multistyle_speech\<close> can
  raise is one that \<open>infer\<close> raises in the number conversion of some segment's text.
  When it returns, the waveform is made of one clip per segment, and the \<open>i\<close>-th clip is the
  one \<open>infer\<close> produces from the audio and reference text of the entry \<open>"Regular"\<close>.
\<close>

theorem unknown_style_uses_Regular:
  assumes "3 * 99 + 1 < length args"
    and "i < length (parse_speechtypes_text gen_text)"
    and "speech_types_of regular_audio regular_ref_text args
           (PStr (style (parse_speechtypes_text gen_text ! i))) = None"
  shows "\<exists>regular.
     speech_types_of regular_audio regular_ref_text args (PStr Regular) = Some regular
     \<and> (case generate_multistyle_speech T L fs regular_audio regular_ref_text gen_text args of
          Inl e \<Rightarrow>
            (e = ValueError \<or> e = OverflowError)
            \<and> (\<exists>j < length (parse_speechtypes_text gen_text).
                  clip T L
                    (selected (speech_types_of regular_audio regular_ref_text args) regular
                       (parse_speechtypes_text gen_text ! j))
                    (args ! 297) (args ! 298)
                    (text_of (parse_speechtypes_text gen_text ! j)) = Inl e)
        | Inr result \<Rightarrow>
            (\<exists>rate clips fs'.
               result = (Some (rate, concat clips), [], fs')
               \<and> length clips = length (parse_speechtypes_text gen_text)
               \<and> (\<exists>r. clip T L regular (args ! 297) (args ! 298)
                         (text_of (parse_speechtypes_text gen_text ! i))
                       = Inr (r, clips ! i))))"
proof -
  let ?st = "speech_types_of regular_audio regular_ref_text args"
  let ?segs = "parse_speechtypes_text gen_text"
  from generate_multistyle_speech_eq [OF assms(1), of regular_audio regular_ref_text T L fs gen_text]
  obtain regular fs' where reg: "?st (PStr Regular) = Some regular"
    and gen: "generate_multistyle_speech T L fs regular_audio regular_ref_text gen_text args
       = (case clips_of
                 (\<lambda>seg. clip T L (selected ?st regular seg) (args ! 297) (args ! 298)
                          (text_of seg)) ?segs of
            Inl e \<Rightarrow> Inl e
          | Inr clips \<Rightarrow>
              Inr (if ?segs = [] then (None, [no_audio_warning], fs')
                   else (Some (fst (last clips), concat (map snd clips)), [], fs')))"
    by blast
  let ?f = "\<lambda>seg. clip T L (selected ?st regular seg) (args ! 297) (args ! 298) (text_of seg)"
  from assms(2) have ne: "?segs \<noteq> []" by auto
  have sel: "selected ?st regular (?segs ! i) = regular"
    using assms(3) by (simp add: selected_def)
  have "case generate_multistyle_speech T L fs regular_audio regular_ref_text gen_text args of
          Inl e \<Rightarrow>
            (e = ValueError \<or> e = OverflowError)
            \<and> (\<exists>j < length ?segs. ?f (?segs ! j) = Inl e)
        | Inr result \<Rightarrow>
            (\<exists>rate clips fs'.
               result = (Some (rate, concat clips), [], fs')
               \<and> length clips = length ?segs
               \<and> (\<exists>r. clip T L regular (args ! 297) (args ! 298) (text_of (?segs ! i))
                       = Inr (r, clips ! i)))"
  proof (cases "clips_of ?f ?segs")
    case (Inl e)
    from clips_of_Inl [OF Inl] obtain j where j: "j < length ?segs" "?f (?segs ! j) = Inl e"
      by blast
    from j(2) have "e = ValueError \<or> e = OverflowError" by (rule clip_errors)
    with j gen Inl show ?thesis by auto
  next
    case (Inr cs)
    from Inr have len: "length cs = length ?segs" by (rule clips_of_length)
    from clips_of_nth [OF Inr assms(2)] sel
    have ci: "clip T L regular (args ! 297) (args ! 298) (text_of (?segs ! i)) = Inr (cs ! i)"
      by simp
    have "map snd cs ! i = snd (cs ! i)" using assms(2) len by simp
    with ci have "clip T L regular (args ! 297) (args ! 298) (text_of (?segs ! i))
                  = Inr (fst (cs ! i), map snd cs ! i)"
      by simp
    moreover have "length (map snd cs) = length ?segs" using len by simp
    moreover have "generate_multistyle_speech T L fs regular_audio regular_ref_text gen_text args
                   = Inr (Some (fst (last cs), concat (map snd cs)), [], fs')"
      using gen Inr ne by simp
    ultimately show ?thesis by (simp only: sum.simps) blast
  qed
  with reg show ?thesis by blast
qed

lemma example_speech_types:
  "speech_types_of (PStr [114]) PNone example_args
   = [PStr Regular \<mapsto> \<lparr>st_audio = PStr [114], st_ref_text = PNone\<rparr>,
      PStr [83] \<mapsto> \<lparr>st_audio = PStr [115], st_ref_text = PStr [116]\<rparr>]"
proof -
  have "fold (\<lambda>(name_input, audio_input, ref_text_input) speech_types.
             if truthy name_input \<and> truthy audio_input
             then speech_types(name_input \<mapsto>
                    \<lparr>st_audio = audio_input, st_ref_text = ref_text_input\<rparr>)
             else speech_types) (replicate n (PNone, PNone, PNone)) m = m"
    for n and m :: "pyval \<rightharpoonup> speech_type"
    by (induction n) simp_all
  moreover have "zip (take 99 example_args)
                  (zip (take 99 (drop 99 example_args)) (take 99 (drop 198 example_args)))
                 = (PStr [83], PStr [115], PStr [116]) # replicate 98 (PNone, PNone, PNone)"
    by (simp add: example_args_def zip_replicate)
  ultimately show ?thesis
    by (simp add: speech_types_of_def collect_speech_types_def)
qed

lemma example_args_nth: "example_args ! 297 = PStr [70, 53, 45, 84, 84, 83]"
  "example_args ! 298 = PBool False" "length example_args = 299"
  by (simp_all add: example_args_def nth_append)

lemma prepare_examples:
  "prepare_gen_text example_lib [97] = Inr [32, 97, 46, 32]"
  "prepare_gen_text example_lib [98] = Inr [32, 98, 46, 32]"
  "prepare_gen_text example_lib [99] = Inr [32, 99, 46, 32]"
  by (simp_all add: prepare_gen_text_def convert_numbers_to_arabic_text_def example_lib_def
        SPACE_def DOT_def latin_letter_def match_number_def char_at_def word_boundary_def
        Let_def suffix_Cons)

lemma example_clip:
  assumes "prepare_gen_text example_lib t = Inr prepared"
  shows "clip example_tts example_lib \<lparr>st_audio = PStr a, st_ref_text = r\<rparr> m (PBool False) t
         = Inr (24000, a @ (case r of PStr s \<Rightarrow> s | _ \<Rightarrow> []) @ prepared)"
proof -
  have p: "preprocess_ref_audio_text example_tts (PStr a) r
           = (a, case r of PStr s \<Rightarrow> s | _ \<Rightarrow> [])"
    by (simp add: example_tts_fields)
  have i: "infer_process example_tts a (case r of PStr s \<Rightarrow> s | _ \<Rightarrow> []) prepared 0 1
           = (a @ (case r of PStr s \<Rightarrow> s | _ \<Rightarrow> []) @ prepared, 24000, length prepared)"
    by (simp add: example_tts_fields)
  show ?thesis
    unfolding clip_def using infer_outputs [OF p assms i]
    by (simp add: remove_silence_step_wave)
qed

text \<open>
  As the click handler is registered, \<open>args\<close> starts with the regular name, so everything
  after it sits one place later than the slices assume: the handler reads the last
  reference text as \<open>model_choice\<close> and the model choice as \<open>remove_silence\<close>.
\<close>

lemma generate_click_args_shifted:
  assumes "length name_inputs = 99" and "length audio_inputs = 99"
    and "length ref_text_inputs = 99"
  shows "generate_click_args regular_name name_inputs audio_inputs ref_text_inputs
           model_choice remove_silence ! 297 = last ref_text_inputs"
    and "generate_click_args regular_name name_inputs audio_inputs ref_text_inputs
           model_choice remove_silence ! 298 = model_choice"
proof -
  from assms(3) have ne: "ref_text_inputs \<noteq> []" by auto
  have "(speech_type_names regular_name name_inputs @ audio_inputs @ ref_text_inputs
          @ [model_choice, remove_silence]) ! 297 = ref_text_inputs ! 98"
    using assms by (simp add: speech_type_names_def nth_append)
  also have "\<dots> = last ref_text_inputs"
    using assms(3) ne by (simp add: last_conv_nth)
  finally show "generate_click_args regular_name name_inputs audio_inputs ref_text_inputs
           model_choice remove_silence ! 297 = last ref_text_inputs"
    by (simp add: generate_click_args_def)
  show "generate_click_args regular_name name_inputs audio_inputs ref_text_inputs
           model_choice remove_silence ! 298 = model_choice"
    using assms by (simp add: generate_click_args_def speech_type_names_def nth_append)
qed

text \<open>
  The theorem with the example arguments and the regular audio \<open>"r"\<close>: on the text
  \<open>"a{S}b{X}c"\<close> the three clips come from the regular audio, from the audio and reference
  text of \<open>S\<close>, and, \<open>X\<close> not being configured, from the regular audio again, in this order;
  on a blank text nothing is generated.
\<close>

theorem generate_multistyle_speech_concatenates_witness:
  "3 * 99 + 1 < length example_args
   \<and> (\<exists>fs'. generate_multistyle_speech example_tts example_lib empty_fstore
               (PStr [114]) PNone [97, 123, 83, 125, 98, 123, 88, 125, 99] example_args
             = Inr (Some (24000, [114, 32, 97, 46, 32, 115, 116, 32, 98, 46, 32,
                                  114, 32, 99, 46, 32]), [], fs'))
   \<and> (\<exists>fs'. generate_multistyle_speech example_tts example_lib empty_fstore
               (PStr [114]) PNone [32] example_args
             = Inr (None, [no_audio_warning], fs'))"
proof -
  have len: "3 * 99 + 1 < length example_args" by (simp add: example_args_nth)
  have st: "configured (PStr [114]) PNone example_args
            = [PStr Regular \<mapsto> \<lparr>st_audio = PStr [114], st_ref_text = PNone\<rparr>,
               PStr [83] \<mapsto> \<lparr>st_audio = PStr [115], st_ref_text = PStr [116]\<rparr>]"
    using speech_types_of_configured [OF len, of "PStr [114]" PNone] example_speech_types
    by simp
  have segs: "parse_speechtypes_text [97, 123, 83, 125, 98, 123, 88, 125, 99]
              = [\<lparr>style = Regular, text_of = [97]\<rparr>, \<lparr>style = [83], text_of = [98]\<rparr>,
                 \<lparr>style = [88], text_of = [99]\<rparr>]"
    by (simp add: parse_speechtypes_text_def match_marker_def LBRACE_def RBRACE_def NEWLINE_def
          strip_def isspace_def)
  have blank: "parse_speechtypes_text [32] = []"
    by (simp add: parse_speechtypes_text_def match_marker_def LBRACE_def
          strip_def isspace_def)
  from generate_multistyle_speech_concatenates [OF len, of "PStr [114]" PNone example_tts
      example_lib empty_fstore "[97, 123, 83, 125, 98, 123, 88, 125, 99]"]
  have a: "\<exists>fs'. generate_multistyle_speech example_tts example_lib empty_fstore
               (PStr [114]) PNone [97, 123, 83, 125, 98, 123, 88, 125, 99] example_args
             = Inr (Some (24000, [114, 32, 97, 46, 32, 115, 116, 32, 98, 46, 32,
                                  114, 32, 99, 46, 32]), [], fs')"
    by (auto simp: st segs example_args_nth selected_def Regular_def
          example_clip [OF prepare_examples(1)] example_clip [OF prepare_examples(2)]
          example_clip [OF prepare_examples(3)])
  from generate_multistyle_speech_concatenates [OF len, of "PStr [114]" PNone example_tts
      example_lib empty_fstore "[32]"]
  have b: "\<exists>fs'. generate_multistyle_speech example_tts example_lib empty_fstore
               (PStr [114]) PNone [32] example_args
             = Inr (None, [no_audio_warning], fs')"
    by (auto simp: blank)
  from len a b show ?thesis by simp
qed

text \<open>
  The theorem on the text \<open>"{X}hi"\<close> with the example arguments, where no speech type
  \<open>X\<close> is configured: the clip is made from the regular audio \<open>"r"\<close>.
\<close>

theorem unknown_style_uses_Regular_witness:
  "3 * 99 + 1 < length example_args
   \<and> 0 < length (parse_speechtypes_text [123, 88, 125, 104, 105])
   \<and> speech_types_of (PStr [114]) PNone example_args
        (PStr (style (parse_speechtypes_text [123, 88, 125, 104, 105] ! 0))) = None
   \<and> (\<exists>rate fs'. generate_multistyle_speech example_tts example_lib empty_fstore
               (PStr [114]) PNone [123, 88, 125, 104, 105] example_args
             = Inr (Some (rate, [114, 32, 104, 105, 46, 32]), [], fs'))"
proof -
  have len: "3 * 99 + 1 < length example_args" by (simp add: example_args_nth)
  have segs: "parse_speechtypes_text [123, 88, 125, 104, 105]
              = [\<lparr>style = [88], text_of = [104, 105]\<rparr>]"
    by (simp add: parse_speechtypes_text_def match_marker_def LBRACE_def RBRACE_def NEWLINE_def
          strip_def isspace_def)
  have i: "0 < length (parse_speechtypes_text [123, 88, 125, 104, 105])"
    by (simp add: segs)
  have none: "speech_types_of (PStr [114]) PNone example_args
        (PStr (style (parse_speechtypes_text [123, 88, 125, 104, 105] ! 0))) = None"
    by (simp add: segs example_speech_types Regular_def)
  have c: "clip example_tts example_lib \<lparr>st_audio = PStr [114], st_ref_text = PNone\<rparr>
             (example_args ! 297) (example_args ! 298) [104, 105]
           = Inr (24000, [114, 32, 104, 105, 46, 32])"
    using example_clip [OF prepare_example, of "[114]" PNone] by (simp add: example_args_nth)
  from unknown_style_uses_Regular [OF len i none, of example_tts example_lib empty_fstore]
  obtain regular where
    reg: "speech_types_of (PStr [114]) PNone example_args (PStr Regular) = Some regular"
    and res: "case generate_multistyle_speech example_tts example_lib empty_fstore
               (PStr [114]) PNone [123, 88, 125, 104, 105] example_args of
          Inl e \<Rightarrow>
            (e = ValueError \<or> e = OverflowError)
            \<and> (\<exists>j < length (parse_speechtypes_text [123, 88, 125, 104, 105]).
                  clip example_tts example_lib
                    (selected (speech_types_of (PStr [114]) PNone example_args) regular
                       (parse_speechtypes_text [123, 88, 125, 104, 105] ! j))
                    (example_args ! 297) (example_args ! 298)
                    (text_of (parse_speechtypes_text [123, 88, 125, 104, 105] ! j)) = Inl e)
        | Inr result \<Rightarrow>
            (\<exists>rate clips fs'.
               result = (Some (rate, concat clips), [], fs')
               \<and> length clips = length (parse_speechtypes_text [123, 88, 125, 104, 105])
               \<and> (\<exists>r. clip example_tts example_lib regular (example_args ! 297)
                         (example_args ! 298)
                         (text_of (parse_speechtypes_text [123, 88, 125, 104, 105] ! 0))
                       = Inr (r, clips ! 0)))"
    by blast
  from reg have regular: "regular = \<lparr>st_audio = PStr [114], st_ref_text = PNone\<rparr>"
    by (simp add: example_speech_types Regular_def)
  have "\<exists>rate fs'. generate_multistyle_speech example_tts example_lib empty_fstore
               (PStr [114]) PNone [123, 88, 125, 104, 105] example_args
             = Inr (Some (rate, [114, 32, 104, 105, 46, 32]), [], fs')"
  proof (cases "generate_multistyle_speech example_tts example_lib empty_fstore
               (PStr [114]) PNone [123, 88, 125, 104, 105] example_args")
    case (Inl e)
    with res have "clip example_tts example_lib regular (example_args ! 297)
        (example_args ! 298) [104, 105] = Inl e"
      by (auto simp: segs selected_def example_speech_types Regular_def regular)
    with c regular show ?thesis by simp
  next
    case (Inr result)
    with res obtain rate clips fs' r where result: "result = (Some (rate, concat clips), [], fs')"
      and n: "length clips = 1"
      and ci: "clip example_tts example_lib regular (example_args ! 297) (example_args ! 298)
                 [104, 105] = Inr (r, clips ! 0)"
      by (auto simp: segs)
    from n obtain w where clips: "clips = [w]"
      by (cases clips) simp_all
    from ci c regular clips have "w = [114, 32, 104, 105, 46, 32]" by simp
    with Inr result clips show ?thesis by simp
  qed
  with len i none show ?thesis by blast
qed

section \<open>Properties of the validation\<close>

lemma fold_available:
  "fold (\<lambda>name_input available.
           if truthy name_input then insert name_input available else available) xs A
   = A \<union> {n \<in> set xs. truthy n}"
  by (induction xs arbitrary: A) auto

lemma validate_speech_types_eq:
  "validate_speech_types g rn args =
     (if \<exists>seg \<in> set (parse_speechtypes_text g).
           PStr (style seg) \<notin> (if truthy rn then {rn} else {}) \<union> {n \<in> set (take 99 args). truthy n}
      then set_interactive False else set_interactive True)"
  unfolding validate_speech_types_def Let_def fold_available
  by (auto simp: max_speech_types_def)

lemma take_names:
  assumes "length name_inputs = 99"
  shows "take 99 (speech_type_names rn name_inputs) = rn # butlast name_inputs"
  using assms by (simp add: speech_type_names_def butlast_conv_take)

text \<open>
  Claim C8, as the code has it.  When the last of the 99 additional name fields is empty,
  the change handler disables the generate button if and only if some style name parsed
  from the text is absent from the configured names, which are the regular name when it
  is not empty and every additional name field that is not empty; otherwise it enables
  the button.
\<close>

theorem validate_speech_types_button:
  assumes "length name_inputs = nat (max_speech_types - 1)" and "\<not> truthy (last name_inputs)"
  shows "gen_text_change gen_text regular_name name_inputs =
     (if \<exists>seg \<in> set (parse_speechtypes_text gen_text).
           PStr (style seg) \<notin> configured_names regular_name name_inputs
      then set_interactive False else set_interactive True)"
proof -
  from assms(1) have len: "length name_inputs = 99" by (simp add: max_speech_types_def)
  then have ne: "name_inputs \<noteq> []" by auto
  have "{n \<in> set name_inputs. truthy n} = {n \<in> set (butlast name_inputs). truthy n}"
  proof -
    have "set name_inputs = insert (last name_inputs) (set (butlast name_inputs))"
      using ne by (metis append_butlast_last_id list.simps(15) rotate1.simps(2) set_rotate1)
    with assms(2) show ?thesis by auto
  qed
  then have "(if truthy regular_name then {regular_name} else {})
               \<union> {n \<in> set (take 99 (speech_type_names regular_name name_inputs)). truthy n}
             = configured_names regular_name name_inputs"
    unfolding take_names [OF len] configured_names_def by auto
  then show ?thesis
    unfolding gen_text_change_def validate_speech_types_eq by simp
qed


text \<open>
  The theorem with the regular name \<open>"Regular"\<close>, the first additional name \<open>"S"\<close>, the other
  98 names empty, and the text \<open>"a{S}b"\<close>.
\<close>

theorem validate_speech_types_button_witness:
  "length (PStr [83] # replicate 98 (PStr [])) = nat (max_speech_types - 1)
   \<and> \<not> truthy (last (PStr [83] # replicate 98 (PStr [])))
   \<and> gen_text_change [97, 123, 83, 125, 98] (PStr Regular) (PStr [83] # replicate 98 (PStr []))
       = set_interactive True"
proof -
  have len: "length (PStr [83] # replicate 98 (PStr [])) = nat (max_speech_types - 1)"
    by (simp add: max_speech_types_def)
  have lst: "\<not> truthy (last (PStr [83] # replicate 98 (PStr [])))"
    by simp
  have segs: "parse_speechtypes_text [97, 123, 83, 125, 98]
              = [\<lparr>style = Regular, text_of = [97]\<rparr>, \<lparr>style = [83], text_of = [98]\<rparr>]"
    by (simp add: parse_speechtypes_text_def match_marker_def LBRACE_def RBRACE_def NEWLINE_def
          strip_def isspace_def)
  from validate_speech_types_button [OF len lst, of "[97, 123, 83, 125, 98]" "PStr Regular"]
  have "gen_text_change [97, 123, 83, 125, 98] (PStr Regular) (PStr [83] # replicate 98 (PStr []))
        = set_interactive True"
    by (simp add: segs configured_names_def Regular_def)
  with len lst show ?thesis by simp
qed

text \<open>
  With an empty regular name and the text \<open>"{}x"\<close> the only style in the text is the empty
  string, which is the regular name; the button is disabled all the same, because an
  empty regular name is not added to the available names.
\<close>

theorem empty_regular_name_counterexample:
  "map style (parse_speechtypes_text [123, 125, 120]) = [[]]
   \<and> gen_text_change [123, 125, 120] (PStr []) (replicate 99 (PStr [])) = set_interactive False"
  by (simp add: gen_text_change_def validate_speech_types_eq speech_type_names_def
        parse_speechtypes_text_def match_marker_def LBRACE_def RBRACE_def NEWLINE_def
        strip_def isspace_def)

text \<open>
  The handler receives the regular name twice, so the first 99 of its \<open>args\<close> end with the
  98th additional name.  A style named by the 99th additional name field counts as missing:
  here that field is \<open>"S"\<close> and the text is \<open>"{S}x"\<close>.
\<close>

lemma last_name_field_ignored:
  "gen_text_change [123, 83, 125, 120] (PStr Regular) (replicate 98 (PStr []) @ [PStr [83]])
     = set_interactive False"
  by (simp add: gen_text_change_def validate_speech_types_eq speech_type_names_def
        parse_speechtypes_text_def match_marker_def LBRACE_def RBRACE_def NEWLINE_def
        strip_def isspace_def Regular_def)

section \<open>Properties of the voice chat\<close>

text \<open>
  Claim C6.  When the user message of a call is not blank, \<open>process_audio_input\<close> appends
  to the conversation state exactly two entries, the user message with role \<open>"user"\<close> and
  then the generated reply with role \<open>"assistant"\<close>, appends the pair of message and reply
  to the history, and returns the two lists and an empty string.  When there is no audio
  path and the text is blank it returns the history and the conversation state unchanged.
\<close>

theorem process_audio_input_appends:
  "(strip (user_message T audio_path text) \<noteq> [] \<longrightarrow>
      process_audio_input T C audio_path text history conv_state
      = (history
           @ [(user_message T audio_path text,
               Some (generate_response C
                       (conv_state
                          @ [\<lparr>role = role_user, content = user_message T audio_path text\<rparr>])))],
         conv_state
           @ [\<lparr>role = role_user, content = user_message T audio_path text\<rparr>,
              \<lparr>role = role_assistant,
               content = generate_response C
                           (conv_state
                              @ [\<lparr>role = role_user,
                                  content = user_message T audio_path text\<rparr>])\<rparr>],
         []))
   \<and> (\<not> truthy audio_path \<and> strip text = [] \<longrightarrow>
        process_audio_input T C audio_path text history conv_state = (history, conv_state, []))"
  by (auto simp: process_audio_input_def user_message_def Let_def)

text \<open>The theorem on the text \<open>"hi"\<close> and on a blank text, both without audio.\<close>

theorem process_audio_input_appends_witness:
  "strip (user_message example_tts PNone [104, 105]) \<noteq> []
   \<and> process_audio_input example_tts example_chat PNone [104, 105] []
        [\<lparr>role = [115], content = [112]\<rparr>]
      = ([([104, 105], Some [111, 107])],
         [\<lparr>role = [115], content = [112]\<rparr>,
          \<lparr>role = role_user, content = [104, 105]\<rparr>,
          \<lparr>role = role_assistant, content = [111, 107]\<rparr>],
         [])
   \<and> \<not> truthy PNone \<and> strip [32] = []
   \<and> process_audio_input example_tts example_chat PNone [32] []
        [\<lparr>role = [115], content = [112]\<rparr>]
      = ([], [\<lparr>role = [115], content = [112]\<rparr>], [])"
  using process_audio_input_appends [of example_tts PNone "[104, 105]" example_chat "[]"
          "[\<lparr>role = [115], content = [112]\<rparr>]"]
    process_audio_input_appends [of example_tts PNone "[32]" example_chat "[]"
          "[\<lparr>role = [115], content = [112]\<rparr>]"]
  by (simp add: user_message_def strip_def isspace_def generate_response_def example_chat_def)

section \<open>Properties of the top-level tabs\<close>

text \<open>
  Claim C10.  The top-level application has exactly four tabs, in this order: the
  single-style synthesis blocks, the multi-style blocks, the voice-chat blocks and the
  credits blocks.
\<close>

theorem app_four_tabs:
  "map snd app = [app_tts, app_multistyle, app_chat, app_credits] \<and> length app = 4"
  by (simp add: app_def TabbedInterface_def)

end
